theory Spec2Isabelle
  imports Main "HOL-Library.Word" "HOL-Library.Multiset"
begin

section \<open>The feedback-queue scheduler of kernel\_sched.c\<close>

text \<open>
  A shallow embedding of \<^verbatim>\<open>os/Feedback Queue/kernel_sched.c\<close>. The scheduler
  routines run under \<^verbatim>\<open>sched_spinlock\<close> in the non-preemptive domain, so each of them is
  a function from the scheduler data to the scheduler data. The calls into the hardware
  layer (timer, preemption switch, core restart, context swap, the mutex operations) act
  outside that data and are not part of the state; \<^verbatim>\<open>bios_clock()\<close> is an input of the
  functions that read it.

  A failed \<^verbatim>\<open>assert\<close>, the dereference of a null pointer, an array index outside the
  array and the overflow of a signed counter are results of their own.
\<close>

subsection \<open>Data\<close>

type_synonym tcb_ref = nat
type_synonym pcb_ref = nat
type_synonym ptcb_ref = nat

text \<open>\<^verbatim>\<open>TimerDuration\<close> is an unsigned machine integer; sums of clock values wrap.\<close>

type_synonym TimerDuration = "64 word"

datatype Thread_type = IDLE_THREAD | NORMAL_THREAD

datatype Thread_state = INIT | READY | RUNNING | STOPPED | EXITED

datatype Thread_phase = CTX_CLEAN | CTX_DIRTY

datatype SCHED_CAUSE =
  SCHED_QUANTUM | SCHED_IO | SCHED_MUTEX | SCHED_PIPE | SCHED_POLL | SCHED_IDLE | SCHED_USER

datatype error = AssertFail | NullDeref | OutOfBounds | Overflow

text \<open>
  The thread control block. Its \<^verbatim>\<open>sched_node\<close> is embedded in it and points back to it
  (\<^verbatim>\<open>rlnode_init(& tcb->sched_node, tcb)\<close>), so a list node is identified with the
  reference of its block. A pointer the code compares with \<^verbatim>\<open>NULL\<close> is an option; the
  field \<^verbatim>\<open>next\<close> is called \<open>next_tcb\<close>. The fields \<^verbatim>\<open>priority\<close>, \<^verbatim>\<open>mutex_flag\<close> and
  \<^verbatim>\<open>prev_queue\<close> are declared in kernel\_sched.h and are taken as integers.
\<close>

record TCB =
  owner_pcb :: pcb_ref
  owner_ptcb :: "ptcb_ref option"
  type :: Thread_type
  state :: Thread_state
  phase :: Thread_phase
  wakeup_time :: TimerDuration
  priority :: int
  mutex_flag :: int
  prev_queue :: int
  prev :: tcb_ref
  next_tcb :: tcb_ref

record PCB =
  thread_count :: int

record PTCB =
  thread_exited :: int

text \<open>
  The scheduler data: the three stores of control blocks, the set \<open>live\<close> of thread blocks
  that \<^verbatim>\<open>allocate_thread\<close> has handed out and \<^verbatim>\<open>free_thread\<close> has not taken back, the
  globals of the file, and \<^verbatim>\<open>CURTHREAD\<close> and the idle thread of the core that runs the
  code. The array \<^verbatim>\<open>SCHED[PRIORITY_LISTS]\<close> is a list of queues; each queue and the
  timeout list hold their nodes from the head on.
\<close>

record sched =
  tcbs :: "tcb_ref \<Rightarrow> TCB"
  pcbs :: "pcb_ref \<Rightarrow> PCB"
  ptcbs :: "ptcb_ref \<Rightarrow> PTCB"
  live :: "tcb_ref set"
  active_threads :: "32 word"
  fail_safe :: int
  SCHED :: "tcb_ref list list"
  TIMEOUT_LIST :: "tcb_ref list"
  counter_congestion :: int
  CURTHREAD :: tcb_ref
  idle_thread :: tcb_ref

text \<open>
  What the headers outside this file define and the code uses: the constants
  \<^verbatim>\<open>MAX_CONGESTION\<close> and \<^verbatim>\<open>NO_TIMEOUT\<close>, and the macro \<^verbatim>\<open>CURPROC\<close>, which reads the
  scheduler data. They are parameters of the model.
\<close>

record config =
  MAX_CONGESTION :: int
  NO_TIMEOUT :: TimerDuration
  CURPROC :: "sched \<Rightarrow> pcb_ref"

definition PRIORITY_LISTS :: "sched \<Rightarrow> int" where
  "PRIORITY_LISTS s = int (length (SCHED s))"

text \<open>Modelled from the spec: \<^verbatim>\<open>LOWEST_PRIORITY = 0\<close> (the constant is declared in
  kernel\_sched.h).\<close>

definition LOWEST_PRIORITY :: int where
  "LOWEST_PRIORITY = 0"

text \<open>Modelled from the spec: \<^verbatim>\<open>TOP_PRIORITY = PRIORITY_LISTS-1\<close> (the constant is
  declared in kernel\_sched.h).\<close>

definition TOP_PRIORITY :: "sched \<Rightarrow> int" where
  "TOP_PRIORITY s = PRIORITY_LISTS s - 1"

definition INT_MAX :: int where
  "INT_MAX = 2147483647"

definition INT_MIN :: int where
  "INT_MIN = - 2147483648"

subsection \<open>The list primitives\<close>

text \<open>Modelled from the spec: the \<^verbatim>\<open>rlnode\<close> lists of util.h are FIFO lists with
  push-back and pop-front. A list is a ring closed by its head node; the head of every list
  of this file is initialised with \<^verbatim>\<open>rlnode_init(&SCHED[i], NULL)\<close>, so its \<^verbatim>\<open>tcb\<close> is
  \<^verbatim>\<open>NULL\<close>, and the node of a thread points to its block. A queue of the model holds the
  nodes of threads between the head and the head.\<close>

datatype rlnode = ListHead | TcbNode tcb_ref

fun node_tcb :: "rlnode \<Rightarrow> tcb_ref option" where
  "node_tcb ListHead = None"
| "node_tcb (TcbNode tcb) = Some tcb"

definition is_rlist_empty :: "tcb_ref list \<Rightarrow> bool" where
  "is_rlist_empty l = (l = [])"

text \<open>Modelled from the spec: pop-front of util.h takes the first node off a non-empty
  list and returns it. On an empty list the node after the head is the head itself, and
  that is what the pop returns, leaving the list empty: \<^verbatim>\<open>sched_queue_select\<close> reads
  \<^verbatim>\<open>sel->tcb\<close> of the node it got and says of it ``When all lists are empty, this is
  NULL''. The result is a pointer to a node; it is never \<^verbatim>\<open>NULL\<close>.\<close>

definition rlist_pop_front :: "tcb_ref list \<Rightarrow> rlnode option \<times> tcb_ref list" where
  "rlist_pop_front l =
     (case l of [] \<Rightarrow> (Some ListHead, []) | n # ns \<Rightarrow> (Some (TcbNode n), ns))"

text \<open>Modelled from the spec: push-back of util.h appends the node at the tail.\<close>

definition rlist_push_back :: "tcb_ref list \<Rightarrow> tcb_ref \<Rightarrow> tcb_ref list" where
  "rlist_push_back l n = l @ [n]"

text \<open>Modelled from the spec: a node is a member of at most one list at a time;
  \<^verbatim>\<open>node.next != &node\<close> holds when the node is linked into a list.\<close>

definition linked :: "tcb_ref \<Rightarrow> sched \<Rightarrow> bool" where
  "linked n s = (n \<in> set (TIMEOUT_LIST s) \<or> n \<in> set (concat (SCHED s)))"

text \<open>Modelled from the spec: \<^verbatim>\<open>rlist_remove\<close> of util.h unlinks the node from the
  list that holds it.\<close>

definition rlist_remove :: "tcb_ref \<Rightarrow> sched \<Rightarrow> sched" where
  "rlist_remove n s =
     s\<lparr>SCHED := map (removeAll n) (SCHED s), TIMEOUT_LIST := removeAll n (TIMEOUT_LIST s)\<rparr>"

definition tcb_upd :: "tcb_ref \<Rightarrow> (TCB \<Rightarrow> TCB) \<Rightarrow> sched \<Rightarrow> sched" where
  "tcb_upd t f s = s\<lparr>tcbs := (tcbs s)(t := f (tcbs s t))\<rparr>"

subsection \<open>Thread blocks\<close>

text \<open>\<^verbatim>\<open>release_TCB\<close>: the block is freed and the unsigned counter goes down by one.\<close>

definition release_TCB :: "tcb_ref \<Rightarrow> sched \<Rightarrow> sched" where
  "release_TCB tcb s = s\<lparr>live := live s - {tcb}, active_threads := active_threads s - 1\<rparr>"

subsection \<open>The timeout list\<close>

text \<open>The loop of \<^verbatim>\<open>sched_register_timeout\<close> with the splice that follows it: skip the
  nodes that are not later than the new one and insert before the first later node.\<close>

fun timeout_insert :: "(tcb_ref \<Rightarrow> TCB) \<Rightarrow> tcb_ref \<Rightarrow> tcb_ref list \<Rightarrow> tcb_ref list" where
  "timeout_insert h tcb [] = [tcb]"
| "timeout_insert h tcb (n # ns) =
     (if wakeup_time (h tcb) < wakeup_time (h n) then tcb # n # ns
      else n # timeout_insert h tcb ns)"

definition sched_register_timeout ::
  "config \<Rightarrow> TimerDuration \<Rightarrow> tcb_ref \<Rightarrow> TimerDuration \<Rightarrow> sched \<Rightarrow> sched" where
  "sched_register_timeout cfg curtime tcb timeout s =
     (if timeout \<noteq> NO_TIMEOUT cfg then
        let s1 = tcb_upd tcb (\<lambda>b. b\<lparr>wakeup_time :=
                   (if timeout = NO_TIMEOUT cfg then NO_TIMEOUT cfg else curtime + timeout)\<rparr>) s
        in s1\<lparr>TIMEOUT_LIST := timeout_insert (tcbs s1) tcb (TIMEOUT_LIST s1)\<rparr>
      else s)"

subsection \<open>The ready queues\<close>

definition sched_queue_add :: "tcb_ref \<Rightarrow> sched \<Rightarrow> error + sched" where
  "sched_queue_add tcb s =
     (let p = priority (tcbs s tcb) in
      if 0 \<le> p \<and> p < PRIORITY_LISTS s
      then Inr (s\<lparr>SCHED := (SCHED s)[nat p := rlist_push_back (SCHED s ! nat p) tcb]\<rparr>)
      else Inl OutOfBounds)"

definition sched_make_ready :: "config \<Rightarrow> tcb_ref \<Rightarrow> sched \<Rightarrow> error + sched" where
  "sched_make_ready cfg tcb s =
     (if \<not> (state (tcbs s tcb) = STOPPED \<or> state (tcbs s tcb) = INIT) then Inl AssertFail
      else if wakeup_time (tcbs s tcb) \<noteq> NO_TIMEOUT cfg
              \<and> \<not> (linked tcb s \<and> state (tcbs s tcb) = STOPPED) then Inl AssertFail
      else
        let s1 = (if wakeup_time (tcbs s tcb) \<noteq> NO_TIMEOUT cfg
                  then tcb_upd tcb (\<lambda>b. b\<lparr>wakeup_time := NO_TIMEOUT cfg\<rparr>) (rlist_remove tcb s)
                  else s);
            s2 = tcb_upd tcb (\<lambda>b. b\<lparr>state := READY\<rparr>) s1
        in if phase (tcbs s2 tcb) = CTX_CLEAN then sched_queue_add tcb s2 else Inr s2)"

subsection \<open>Boost\<close>

text \<open>The inner loop of \<^verbatim>\<open>boost\<close> at level \<open>i\<close>. In \<^verbatim>\<open>boost\<close> the index runs from
  \<^verbatim>\<open>TOP_PRIORITY - 1\<close> down to \<^verbatim>\<open>LOWEST_PRIORITY\<close>, so \<open>i\<close> and \<open>i + 1\<close> are inside the
  array; the loop is defined there. The pop is reached on a non-empty list only, where it
  returns the node of a thread.\<close>

function boost_level :: "int \<Rightarrow> sched \<Rightarrow> sched" where
  "boost_level i s =
     (if 0 \<le> i \<and> i + 1 < PRIORITY_LISTS s \<and> \<not> is_rlist_empty (SCHED s ! nat i) then
        (case rlist_pop_front (SCHED s ! nat i) of
           (None, rest) \<Rightarrow> s
         | (Some ListHead, rest) \<Rightarrow> s
         | (Some (TcbNode sel), rest) \<Rightarrow>
             let s1 = s\<lparr>SCHED := (SCHED s)[nat i := rest]\<rparr>;
                 s2 = tcb_upd sel (\<lambda>b. b\<lparr>priority := priority b + 1\<rparr>) s1
             in boost_level i
                  (s2\<lparr>SCHED := (SCHED s2)[nat (i + 1) :=
                                  rlist_push_back (SCHED s2 ! nat (i + 1)) sel]\<rparr>))
      else s)"
  by pat_completeness auto
termination
  by (relation "measure (\<lambda>(i, s). length (SCHED s ! nat i))")
     (auto simp: rlist_pop_front_def is_rlist_empty_def tcb_upd_def PRIORITY_LISTS_def
           split: list.splits)

declare boost_level.simps [simp del]

function boost_from :: "int \<Rightarrow> sched \<Rightarrow> sched" where
  "boost_from i s =
     (if i \<ge> LOWEST_PRIORITY then boost_from (i - 1) (boost_level i s) else s)"
  by pat_completeness auto
termination
  by (relation "measure (\<lambda>(i, s). nat (i + 1))") (auto simp: LOWEST_PRIORITY_def)

declare boost_from.simps [simp del]

definition boost :: "sched \<Rightarrow> sched" where
  "boost s = (let s0 = s\<lparr>counter_congestion := 0\<rparr> in boost_from (TOP_PRIORITY s0 - 1) s0)"

subsection \<open>Selection\<close>

text \<open>The loop at the top of \<^verbatim>\<open>sched_queue_select\<close>: wake the threads at the head of the
  timeout list whose time has come.\<close>

definition drain_measure :: "sched \<Rightarrow> nat" where
  "drain_measure s =
     2 * length (TIMEOUT_LIST s)
     + (case TIMEOUT_LIST s of [] \<Rightarrow> 0
        | tcb # ns \<Rightarrow>
            if state (tcbs s tcb) = STOPPED \<or> state (tcbs s tcb) = INIT then 1 else 0)"

lemma sched_queue_add_fields:
  "sched_queue_add tcb s = Inr s' \<Longrightarrow>
     TIMEOUT_LIST s' = TIMEOUT_LIST s \<and> tcbs s' = tcbs s \<and> fail_safe s' = fail_safe s
     \<and> length (SCHED s') = length (SCHED s) \<and> pcbs s' = pcbs s \<and> ptcbs s' = ptcbs s
     \<and> live s' = live s \<and> active_threads s' = active_threads s
     \<and> counter_congestion s' = counter_congestion s \<and> CURTHREAD s' = CURTHREAD s
     \<and> idle_thread s' = idle_thread s"
  by (auto simp: sched_queue_add_def Let_def split: if_splits)

lemma sched_make_ready_measure:
  assumes "sched_make_ready cfg tcb s = Inr s'" and "TIMEOUT_LIST s = tcb # ns"
  shows "drain_measure s' < drain_measure s"
proof -
  from assms(1) have st: "state (tcbs s tcb) = STOPPED \<or> state (tcbs s tcb) = INIT"
    by (auto simp: sched_make_ready_def split: if_splits)
  show ?thesis
  proof (cases "wakeup_time (tcbs s tcb) \<noteq> NO_TIMEOUT cfg")
    case True
    with assms(1) st have "TIMEOUT_LIST s' = removeAll tcb (TIMEOUT_LIST s)"
      by (auto simp: sched_make_ready_def Let_def tcb_upd_def rlist_remove_def
               dest!: sched_queue_add_fields split: if_splits)
    moreover have "length (removeAll tcb (tcb # ns)) \<le> length ns"
      by (simp add: length_removeAll_less_eq)
    ultimately have "length (TIMEOUT_LIST s') \<le> length ns"
      using assms(2) by simp
    then have "drain_measure s' \<le> 2 * length ns + 1"
      by (auto simp: drain_measure_def split: list.splits)
    moreover have "2 * length ns + 2 \<le> drain_measure s"
      using assms(2) by (simp add: drain_measure_def)
    ultimately show ?thesis by linarith
  next
    case False
    with assms(1) st have "TIMEOUT_LIST s' = TIMEOUT_LIST s"
      and "state (tcbs s' tcb) = READY"
      by (auto simp: sched_make_ready_def Let_def tcb_upd_def
               dest!: sched_queue_add_fields split: if_splits)
    then show ?thesis
      using assms(2) st by (auto simp: drain_measure_def)
  qed
qed

function drain_timeouts :: "config \<Rightarrow> TimerDuration \<Rightarrow> sched \<Rightarrow> error + sched" where
  "drain_timeouts cfg curtime s =
     (if \<not> is_rlist_empty (TIMEOUT_LIST s) then
        (case TIMEOUT_LIST s of
           [] \<Rightarrow> Inr s
         | tcb # ns \<Rightarrow>
             if wakeup_time (tcbs s tcb) > curtime then Inr s
             else (case sched_make_ready cfg tcb s of
                     Inl e \<Rightarrow> Inl e
                   | Inr s' \<Rightarrow> drain_timeouts cfg curtime s'))
      else Inr s)"
  by pat_completeness auto
termination
  by (relation "measure (\<lambda>(cfg, curtime, s). drain_measure s)")
     (auto dest: sched_make_ready_measure)

declare drain_timeouts.simps [simp del]

text \<open>The search loop: from index \<open>i\<close> down to \<^verbatim>\<open>LOWEST_PRIORITY\<close>, pop the front of the
  queue and stop when the pointer \<open>sel\<close> is not \<^verbatim>\<open>NULL\<close>. The result is the value of \<open>i\<close>
  and of \<open>sel\<close> after the loop, and the scheduler data; \<open>sel\<close> is \<open>None\<close> when the loop has
  not assigned it.\<close>

function search_lists :: "int \<Rightarrow> sched \<Rightarrow> int \<times> rlnode option \<times> sched" where
  "search_lists i s =
     (if i \<ge> LOWEST_PRIORITY then
        (case rlist_pop_front (SCHED s ! nat i) of
           (Some sel, rest) \<Rightarrow> (i, Some sel, s\<lparr>SCHED := (SCHED s)[nat i := rest]\<rparr>)
         | (None, rest) \<Rightarrow> search_lists (i - 1) s)
      else (i, None, s))"
  by pat_completeness auto
termination
  by (relation "measure (\<lambda>(i, s). nat (i + 1))") (auto simp: LOWEST_PRIORITY_def)

declare search_lists.simps [simp del]

definition congestion_drop :: "sched \<Rightarrow> error + sched" where
  "congestion_drop s =
     (if counter_congestion s = INT_MIN then Inl Overflow
      else Inr (s\<lparr>counter_congestion := counter_congestion s - 1\<rparr>))"

definition congestion_grow :: "sched \<Rightarrow> error + sched" where
  "congestion_grow s =
     (if counter_congestion s = INT_MAX then Inl Overflow
      else Inr (s\<lparr>counter_congestion := counter_congestion s + 1\<rparr>))"

text \<open>The loop over the lists below the one a thread was found in.\<close>

function check_lower :: "int \<Rightarrow> sched \<Rightarrow> error + sched" where
  "check_lower i s =
     (if i \<ge> LOWEST_PRIORITY then
        if \<not> is_rlist_empty (SCHED s ! nat i) then congestion_grow s
        else if i = LOWEST_PRIORITY then congestion_drop s
        else check_lower (i - 1) s
      else Inr s)"
  by pat_completeness auto
termination
  by (relation "measure (\<lambda>(i, s). nat (i + 1))") (auto simp: LOWEST_PRIORITY_def)

declare check_lower.simps [simp del]

text \<open>The congestion update and the clamp that follows it, for the value \<open>i\<close> the search
  loop has left.\<close>

definition update_congestion :: "int \<Rightarrow> sched \<Rightarrow> error + sched" where
  "update_congestion i s =
     (case (if i \<le> LOWEST_PRIORITY then congestion_drop s else check_lower (i - 1) s) of
        Inl e \<Rightarrow> Inl e
      | Inr s1 \<Rightarrow>
          Inr (if counter_congestion s1 < 0 then s1\<lparr>counter_congestion := 0\<rparr> else s1))"

text \<open>\<^verbatim>\<open>sched_queue_select\<close> up to and with \<^verbatim>\<open>fail_safe++\<close>: the pointer \<open>sel\<close> and the
  scheduler data before the boost test.\<close>

definition select_thread ::
  "config \<Rightarrow> TimerDuration \<Rightarrow> sched \<Rightarrow> error + (rlnode option \<times> sched)" where
  "select_thread cfg curtime s =
     (case drain_timeouts cfg curtime s of
        Inl e \<Rightarrow> Inl e
      | Inr s1 \<Rightarrow>
          (case search_lists (TOP_PRIORITY s1) s1 of
             (i, sel, s2) \<Rightarrow>
               (case update_congestion i s2 of
                  Inl e \<Rightarrow> Inl e
                | Inr s3 \<Rightarrow>
                    if fail_safe s3 = INT_MAX then Inl Overflow
                    else Inr (sel, s3\<lparr>fail_safe := fail_safe s3 + 1\<rparr>))))"

definition boost_needed :: "config \<Rightarrow> sched \<Rightarrow> bool" where
  "boost_needed cfg s = (counter_congestion s \<ge> MAX_CONGESTION cfg \<or> fail_safe s = 500)"

text \<open>The whole function. Its last statement is \<^verbatim>\<open>return sel->tcb\<close>: it reads the node
  \<open>sel\<close> points to, and the result is \<^verbatim>\<open>NULL\<close> when that node is a list head.\<close>

definition sched_queue_select ::
  "config \<Rightarrow> TimerDuration \<Rightarrow> sched \<Rightarrow> error + (tcb_ref option \<times> sched)" where
  "sched_queue_select cfg curtime s =
     (case select_thread cfg curtime s of
        Inl e \<Rightarrow> Inl e
      | Inr (sel, s5) \<Rightarrow>
          let s6 = (if boost_needed cfg s5 then boost s5 else s5) in
          (case sel of
             None \<Rightarrow> Inl NullDeref
           | Some n \<Rightarrow> Inr (node_tcb n, s6)))"

subsection \<open>Waking and sleeping\<close>

definition wakeup :: "config \<Rightarrow> tcb_ref \<Rightarrow> sched \<Rightarrow> error + (int \<times> sched)" where
  "wakeup cfg tcb s =
     (if state (tcbs s tcb) = STOPPED \<or> state (tcbs s tcb) = INIT then
        (case sched_make_ready cfg tcb s of
           Inl e \<Rightarrow> Inl e
         | Inr s' \<Rightarrow> Inr (1, s'))
      else Inr (0, s))"

subsection \<open>Yield and gain\<close>

text \<open>The priority change at the top of \<^verbatim>\<open>yield\<close>: the switch on the cause, the bounds
  check and the reinstatement after a mutex wait, on the block of the current thread.\<close>

definition yield_priority :: "int \<Rightarrow> SCHED_CAUSE \<Rightarrow> TCB \<Rightarrow> TCB" where
  "yield_priority tp cause current =
     (let c1 = (case cause of
                  SCHED_QUANTUM \<Rightarrow> current\<lparr>priority := priority current - 1\<rparr>
                | SCHED_IO \<Rightarrow> current\<lparr>priority := priority current + 1\<rparr>
                | SCHED_MUTEX \<Rightarrow>
                    (let c0 = (if mutex_flag current = 0
                               then current\<lparr>prev_queue := priority current\<rparr> else current)
                     in c0\<lparr>priority := LOWEST_PRIORITY, mutex_flag := 1\<rparr>)
                | SCHED_PIPE \<Rightarrow> current
                | SCHED_POLL \<Rightarrow> current
                | SCHED_IDLE \<Rightarrow> current
                | SCHED_USER \<Rightarrow> current);
          c2 = (if priority c1 < LOWEST_PRIORITY then c1\<lparr>priority := LOWEST_PRIORITY\<rparr>
                else if priority c1 > tp then c1\<lparr>priority := tp\<rparr>
                else c1)
      in if mutex_flag c2 = 1 \<and> cause \<noteq> SCHED_MUTEX
         then c2\<lparr>mutex_flag := 0, priority := prev_queue c2\<rparr>
         else c2)"

text \<open>\<^verbatim>\<open>gain\<close>, run by the thread that has the core after the switch.\<close>

definition gain :: "config \<Rightarrow> sched \<Rightarrow> error + sched" where
  "gain cfg s =
     (let current = CURTHREAD s;
          prv = prev (tcbs s current);
          s1 = tcb_upd current (\<lambda>b. b\<lparr>state := RUNNING, phase := CTX_DIRTY\<rparr>) s
      in if current \<noteq> prv then
           let s2 = tcb_upd prv (\<lambda>b. b\<lparr>phase := CTX_CLEAN\<rparr>) s1 in
           (case state (tcbs s2 prv) of
              READY \<Rightarrow>
                if type (tcbs s2 prv) \<noteq> IDLE_THREAD then sched_queue_add prv s2 else Inr s2
            | EXITED \<Rightarrow>
                let s3 = (case owner_ptcb (tcbs s2 prv) of
                            None \<Rightarrow> s2
                          | Some p \<Rightarrow>
                              s2\<lparr>ptcbs := (ptcbs s2)(p := (ptcbs s2 p)\<lparr>thread_exited := 1\<rparr>)\<rparr>);
                    cp = CURPROC cfg s3;
                    s4 = s3\<lparr>pcbs := (pcbs s3)(cp :=
                              (pcbs s3 cp)\<lparr>thread_count := thread_count (pcbs s3 cp) - 1\<rparr>)\<rparr>
                in Inr (release_TCB prv s4)
            | STOPPED \<Rightarrow> Inr s2
            | INIT \<Rightarrow> Inl AssertFail
            | RUNNING \<Rightarrow> Inl AssertFail)
         else Inr s1)"

text \<open>\<^verbatim>\<open>yield\<close> from the switch on the cause to the switch on the state of the current
  thread: the priority change is applied to the block of \<^verbatim>\<open>CURTHREAD\<close>, a running thread
  becomes \<^verbatim>\<open>READY\<close>, and the flag \<^verbatim>\<open>current_ready\<close> is computed.\<close>

definition yield_outgoing :: "SCHED_CAUSE \<Rightarrow> sched \<Rightarrow> error + (bool \<times> sched)" where
  "yield_outgoing cause s =
     (let current = CURTHREAD s;
          s1 = tcb_upd current (yield_priority (TOP_PRIORITY s) cause) s
      in case state (tcbs s1 current) of
           RUNNING \<Rightarrow> Inr (True, tcb_upd current (\<lambda>b. b\<lparr>state := READY\<rparr>) s1)
         | READY \<Rightarrow> Inr (True, s1)
         | STOPPED \<Rightarrow> Inr (False, s1)
         | EXITED \<Rightarrow> Inr (False, s1)
         | INIT \<Rightarrow> Inl AssertFail)"

text \<open>\<^verbatim>\<open>yield\<close> as the core runs it: the part under the lock, the switch of
  \<^verbatim>\<open>CURTHREAD\<close>, and the \<^verbatim>\<open>gain\<close> of the thread that continues.\<close>

definition yield :: "config \<Rightarrow> TimerDuration \<Rightarrow> SCHED_CAUSE \<Rightarrow> sched \<Rightarrow> error + sched" where
  "yield cfg curtime cause s =
     (case yield_outgoing cause s of
        Inl e \<Rightarrow> Inl e
      | Inr (current_ready, s2) \<Rightarrow>
          (case sched_queue_select cfg curtime s2 of
             Inl e \<Rightarrow> Inl e
           | Inr (sel, s3) \<Rightarrow>
               let current = CURTHREAD s;
                   nxt = (case sel of
                            None \<Rightarrow> if current_ready then current else idle_thread s3
                          | Some n \<Rightarrow> n);
                   s4 = tcb_upd current (\<lambda>b. b\<lparr>next_tcb := nxt\<rparr>) s3;
                   s5 = tcb_upd nxt (\<lambda>b. b\<lparr>prev := current\<rparr>) s4;
                   s6 = (if current \<noteq> nxt then s5\<lparr>CURTHREAD := nxt\<rparr> else s5)
               in gain cfg s6))"

definition sleep_releasing ::
  "config \<Rightarrow> TimerDuration \<Rightarrow> TimerDuration \<Rightarrow> Thread_state \<Rightarrow> SCHED_CAUSE \<Rightarrow> TimerDuration
     \<Rightarrow> sched \<Rightarrow> error + sched" where
  "sleep_releasing cfg curtime curtime' st cause timeout s =
     (if \<not> (st = STOPPED \<or> st = EXITED) then Inl AssertFail
      else
        let tcb = CURTHREAD s;
            s1 = tcb_upd tcb (\<lambda>b. b\<lparr>state := st\<rparr>) s;
            s2 = (if st \<noteq> EXITED then sched_register_timeout cfg curtime tcb timeout s1 else s1)
        in yield cfg curtime' cause s2)"

subsection \<open>Executions\<close>

text \<open>The entries through which the scheduler data is changed, and their execution one
  after the other. A selecting event calls \<^verbatim>\<open>sched_queue_select\<close> once; \<open>fired\<close> counts the
  selecting events of an execution that end with \<^verbatim>\<open>fail_safe == 500\<close>.\<close>

datatype event =
  Select TimerDuration
| Yield TimerDuration SCHED_CAUSE
| Sleep TimerDuration TimerDuration Thread_state SCHED_CAUSE TimerDuration
| Wakeup tcb_ref
| Gain
| Boost

fun selecting :: "event \<Rightarrow> bool" where
  "selecting (Select curtime) = True"
| "selecting (Yield curtime cause) = True"
| "selecting (Sleep curtime curtime' st cause timeout) = True"
| "selecting (Wakeup tcb) = False"
| "selecting Gain = False"
| "selecting Boost = False"

fun perform :: "config \<Rightarrow> event \<Rightarrow> sched \<Rightarrow> error + sched" where
  "perform cfg (Select curtime) s =
     (case sched_queue_select cfg curtime s of Inl e \<Rightarrow> Inl e | Inr (r, s') \<Rightarrow> Inr s')"
| "perform cfg (Yield curtime cause) s = yield cfg curtime cause s"
| "perform cfg (Sleep curtime curtime' st cause timeout) s =
     sleep_releasing cfg curtime curtime' st cause timeout s"
| "perform cfg (Wakeup tcb) s =
     (case wakeup cfg tcb s of Inl e \<Rightarrow> Inl e | Inr (r, s') \<Rightarrow> Inr s')"
| "perform cfg Gain s = gain cfg s"
| "perform cfg Boost s = Inr (boost s)"

fun run :: "config \<Rightarrow> event list \<Rightarrow> sched \<Rightarrow> error + sched" where
  "run cfg [] s = Inr s"
| "run cfg (e # es) s =
     (case perform cfg e s of Inl x \<Rightarrow> Inl x | Inr s' \<Rightarrow> run cfg es s')"

fun fired :: "config \<Rightarrow> event list \<Rightarrow> sched \<Rightarrow> nat" where
  "fired cfg [] s = 0"
| "fired cfg (e # es) s =
     (case perform cfg e s of
        Inl x \<Rightarrow> 0
      | Inr s' \<Rightarrow> (if selecting e \<and> fail_safe s' = 500 then 1 else 0) + fired cfg es s')"

definition selections :: "event list \<Rightarrow> nat" where
  "selections es = length (filter selecting es)"

subsection \<open>Auxiliary notions\<close>

text \<open>The store after the priority of every node of \<open>l\<close> has been raised once per
  occurrence, and the array of queues after every list below the top one has moved up one
  level, \<open>k + 1\<close> being the top index. Both serve to state what \<^verbatim>\<open>boost\<close> computes.\<close>

definition raise_priority :: "tcb_ref list \<Rightarrow> (tcb_ref \<Rightarrow> TCB) \<Rightarrow> tcb_ref \<Rightarrow> TCB" where
  "raise_priority l h = (\<lambda>t. (h t)\<lparr>priority := priority (h t) + int (count_list l t)\<rparr>)"

definition lifted :: "nat \<Rightarrow> tcb_ref list list \<Rightarrow> tcb_ref list list" where
  "lifted k q = [] # take k q @ (q ! Suc k @ q ! k) # drop (Suc (Suc k)) q"

text \<open>The fields that only \<^verbatim>\<open>sched_queue_select\<close>, \<^verbatim>\<open>boost\<close>, \<^verbatim>\<open>gain\<close> and the
  allocator write.\<close>

definition same_counters :: "sched \<Rightarrow> sched \<Rightarrow> bool" where
  "same_counters s s' =
     (fail_safe s' = fail_safe s \<and> counter_congestion s' = counter_congestion s
      \<and> length (SCHED s') = length (SCHED s) \<and> pcbs s' = pcbs s \<and> ptcbs s' = ptcbs s
      \<and> live s' = live s \<and> active_threads s' = active_threads s
      \<and> CURTHREAD s' = CURTHREAD s \<and> idle_thread s' = idle_thread s)"

text \<open>The two fields of a block that remember a mutex wait.\<close>

definition mutex_part :: "TCB \<Rightarrow> int \<times> int" where
  "mutex_part b = (mutex_flag b, prev_queue b)"

text \<open>Thread \<open>t\<close> has the core: its context is in use and its node is in no ready
  queue.\<close>

definition off_queue :: "tcb_ref \<Rightarrow> sched \<Rightarrow> bool" where
  "off_queue t s = (phase (tcbs s t) = CTX_DIRTY \<and> t \<notin> set (concat (SCHED s)))"

text \<open>The cause of the \<^verbatim>\<open>yield\<close> that an event makes, and the executions in which thread
  \<open>t\<close> makes no \<^verbatim>\<open>yield\<close> with a cause other than \<^verbatim>\<open>SCHED_MUTEX\<close>; the thread that makes
  the \<^verbatim>\<open>yield\<close> of an event is \<^verbatim>\<open>CURTHREAD\<close> at that event.\<close>

fun yield_cause :: "event \<Rightarrow> SCHED_CAUSE option" where
  "yield_cause (Select curtime) = None"
| "yield_cause (Yield curtime cause) = Some cause"
| "yield_cause (Sleep curtime curtime' st cause timeout) = Some cause"
| "yield_cause (Wakeup tcb) = None"
| "yield_cause Gain = None"
| "yield_cause Boost = None"

fun quiet :: "config \<Rightarrow> tcb_ref \<Rightarrow> event list \<Rightarrow> sched \<Rightarrow> bool" where
  "quiet cfg t [] s = True"
| "quiet cfg t (e # es) s =
     ((if CURTHREAD s = t then yield_cause e \<in> {None, Some SCHED_MUTEX} else True)
      \<and> (case perform cfg e s of Inl x \<Rightarrow> True | Inr s' \<Rightarrow> quiet cfg t es s'))"

text \<open>The timeout list is in non-decreasing order of wakeup time.\<close>

definition timeouts_sorted :: "sched \<Rightarrow> bool" where
  "timeouts_sorted s = sorted (map (\<lambda>n. wakeup_time (tcbs s n)) (TIMEOUT_LIST s))"

subsection \<open>Sample data\<close>

text \<open>A configuration in which \<^verbatim>\<open>CURPROC\<close> is the process that owns the current thread,
  and a system with three priority lists.\<close>

definition sample_config :: config where
  "sample_config = \<lparr>MAX_CONGESTION = 3, NO_TIMEOUT = - 1,
                    CURPROC = (\<lambda>s. owner_pcb (tcbs s (CURTHREAD s)))\<rparr>"

definition fresh_tcb :: TCB where
  "fresh_tcb = \<lparr>owner_pcb = 0, owner_ptcb = None, type = NORMAL_THREAD, state = INIT,
                phase = CTX_CLEAN, wakeup_time = - 1, priority = 2, mutex_flag = 0,
                prev_queue = 2, prev = 0, next_tcb = 0\<rparr>"

definition idle_sched :: sched where
  "idle_sched = \<lparr>tcbs = (\<lambda>t. fresh_tcb), pcbs = (\<lambda>p. \<lparr>thread_count = 0\<rparr>),
     ptcbs = (\<lambda>p. \<lparr>thread_exited = 0\<rparr>), live = {}, active_threads = 0, fail_safe = 0,
     SCHED = [[], [], []], TIMEOUT_LIST = [], counter_congestion = 0, CURTHREAD = 0,
     idle_thread = 0\<rparr>"

text \<open>Three priority lists with four ready threads; thread 3 is in the top list.\<close>

definition busy_sched :: sched where
  "busy_sched = idle_sched\<lparr>
     tcbs := (\<lambda>t. fresh_tcb\<lparr>state := READY,
                priority := (if t = 3 then 2 else if t = 2 then 1 else 0)\<rparr>),
     SCHED := [[1, 4], [2], [3]]\<rparr>"

text \<open>Two sleeping threads with timeouts 50 and 200 and one ready thread in the lowest
  list.\<close>

definition sleepy_sched :: sched where
  "sleepy_sched = idle_sched\<lparr>
     tcbs := (\<lambda>t. if t = 5 then fresh_tcb\<lparr>state := STOPPED, wakeup_time := 50, priority := 1\<rparr>
                 else if t = 6 then fresh_tcb\<lparr>state := STOPPED, wakeup_time := 200\<rparr>
                 else fresh_tcb\<lparr>state := READY, priority := 0\<rparr>),
     SCHED := [[1], [], []],
     TIMEOUT_LIST := [5, 6]\<rparr>"

text \<open>A thread of process 1 has the core after the only thread of process 2, which has
  exited, was switched out.\<close>

definition exit_sched :: sched where
  "exit_sched = idle_sched\<lparr>
     tcbs := (\<lambda>t. if t = 2
                 then fresh_tcb\<lparr>owner_pcb := 2, owner_ptcb := Some 7, state := EXITED,
                                phase := CTX_DIRTY\<rparr>
                 else fresh_tcb\<lparr>owner_pcb := 1, state := READY, prev := 2\<rparr>),
     pcbs := (\<lambda>p. \<lparr>thread_count = 1\<rparr>),
     live := {1, 2},
     active_threads := 2,
     CURTHREAD := 1\<rparr>"

text \<open>The top list is empty and two threads wait below it; the congestion counter is 1.\<close>

definition starved_sched :: sched where
  "starved_sched = idle_sched\<lparr>
     tcbs := (\<lambda>t. fresh_tcb\<lparr>state := READY, priority := (if t = 2 then 1 else 0)\<rparr>),
     SCHED := [[1], [2], []],
     counter_congestion := 1\<rparr>"

text \<open>A core whose idle thread is running and nothing else exists.\<close>

definition idle_tcb :: TCB where
  "idle_tcb = fresh_tcb\<lparr>type := IDLE_THREAD, state := RUNNING, phase := CTX_DIRTY\<rparr>"

definition lone_sched :: sched where
  "lone_sched = idle_sched\<lparr>tcbs := (\<lambda>t. idle_tcb)\<rparr>"

text \<open>Thread 1 has the core, with priority 1, and thread 2 waits in the top list.\<close>

definition mutex_sched :: sched where
  "mutex_sched = idle_sched\<lparr>
     tcbs := (\<lambda>u. if u = 1 then fresh_tcb\<lparr>state := RUNNING, phase := CTX_DIRTY, priority := 1\<rparr>
                 else fresh_tcb\<lparr>state := READY\<rparr>),
     SCHED := [[], [], [2]],
     CURTHREAD := 1\<rparr>"

section \<open>Properties\<close>

subsection \<open>Boost\<close>

lemma raise_priority_Nil: "raise_priority [] h = h"
  by (simp add: raise_priority_def)

lemma raise_priority_Cons:
  "raise_priority ns (h(n := (h n)\<lparr>priority := priority (h n) + 1\<rparr>)) = raise_priority (n # ns) h"
  by (rule ext) (simp add: raise_priority_def)

lemma raise_priority_append:
  "raise_priority l (raise_priority m h) = raise_priority (m @ l) h"
  by (rule ext) (simp add: raise_priority_def)

lemma boost_level_outside:
  "\<not> (0 \<le> i \<and> i + 1 < PRIORITY_LISTS s) \<Longrightarrow> boost_level i s = s"
  by (subst boost_level.simps) auto

lemma boost_level_eq:
  "0 \<le> i \<Longrightarrow> i + 1 < PRIORITY_LISTS s \<Longrightarrow> SCHED s ! nat i = l \<Longrightarrow>
   boost_level i s =
     s\<lparr>tcbs := raise_priority l (tcbs s),
       SCHED := (SCHED s)[nat i := [], nat (i + 1) := SCHED s ! nat (i + 1) @ l]\<rparr>"
proof (induction l arbitrary: s)
  case Nil
  then have "(SCHED s)[nat i := [], nat (i + 1) := SCHED s ! nat (i + 1)] = SCHED s"
    by (metis list_update_id)
  with Nil show ?case
    by (simp add: boost_level.simps is_rlist_empty_def raise_priority_Nil)
next
  case (Cons n ns)
  let ?s' = "s\<lparr>tcbs := (tcbs s)(n := (tcbs s n)\<lparr>priority := priority (tcbs s n) + 1\<rparr>),
               SCHED := (SCHED s)[nat i := ns, nat (i + 1) := SCHED s ! nat (i + 1) @ [n]]\<rparr>"
  have ne: "nat i \<noteq> nat (i + 1)" using Cons.prems by simp
  have len: "nat i < length (SCHED s)" "nat (i + 1) < length (SCHED s)"
    using Cons.prems by (simp_all add: PRIORITY_LISTS_def)
  have step: "boost_level i s = boost_level i ?s'"
    using Cons.prems ne
    by (subst boost_level.simps)
       (simp add: is_rlist_empty_def rlist_pop_front_def rlist_push_back_def tcb_upd_def Let_def)
  have "boost_level i ?s' =
     ?s'\<lparr>tcbs := raise_priority ns (tcbs ?s'),
       SCHED := (SCHED ?s')[nat i := [], nat (i + 1) := SCHED ?s' ! nat (i + 1) @ ns]\<rparr>"
    using Cons.prems ne len
    by (intro Cons.IH) (simp_all add: PRIORITY_LISTS_def)
  also have "\<dots> = s\<lparr>tcbs := raise_priority (n # ns) (tcbs s),
       SCHED := (SCHED s)[nat i := [], nat (i + 1) := SCHED s ! nat (i + 1) @ n # ns]\<rparr>"
    using ne len by (simp add: raise_priority_Cons list_update_swap [of "nat i" "nat (i + 1)"])
  finally show ?case using step by simp
qed


lemma boost_from_stop: "i < 0 \<Longrightarrow> boost_from i s = s"
  by (subst boost_from.simps) (simp add: LOWEST_PRIORITY_def)

lemma boost_from_step: "0 \<le> i \<Longrightarrow> boost_from i s = boost_from (i - 1) (boost_level i s)"
  by (subst boost_from.simps) (simp add: LOWEST_PRIORITY_def)

lemma lifted_0: "Suc 0 < length q \<Longrightarrow> q[0 := [], Suc 0 := q ! Suc 0 @ q ! 0] = lifted 0 q"
  by (cases q; cases "tl q") (auto simp: lifted_def)

lemma lifted_Suc:
  assumes "Suc (Suc k) < length q"
  shows "lifted k (q[Suc k := [], Suc (Suc k) := q ! Suc (Suc k) @ q ! Suc k]) = lifted (Suc k) q"
proof -
  have "take (Suc k) q = take k q @ [q ! k]"
    using assms by (simp add: take_Suc_conv_app_nth)
  moreover have "drop (Suc (Suc k)) (q[Suc k := [], Suc (Suc k) := q ! Suc (Suc k) @ q ! Suc k])
      = (q ! Suc (Suc k) @ q ! Suc k) # drop (Suc (Suc (Suc k))) q"
  proof -
    let ?q' = "q[Suc k := [], Suc (Suc k) := q ! Suc (Suc k) @ q ! Suc k]"
    have a: "drop (Suc (Suc k)) ?q' = ?q' ! Suc (Suc k) # drop (Suc (Suc (Suc k))) ?q'"
      by (rule Cons_nth_drop_Suc [symmetric]) (use assms in simp)
    have b: "?q' ! Suc (Suc k) = q ! Suc (Suc k) @ q ! Suc k"
      using assms by simp
    have c: "drop (Suc (Suc (Suc k))) ?q' = drop (Suc (Suc (Suc k))) q"
      by (simp only: drop_update_cancel lessI less_SucI)
    show ?thesis by (simp only: a b c)
  qed
  ultimately show ?thesis
    using assms by (simp add: lifted_def)
qed

lemma boost_from_eq:
  "Suc k < length (SCHED s) \<Longrightarrow>
   boost_from (int k) s =
     s\<lparr>tcbs := raise_priority (concat (rev (take (Suc k) (SCHED s)))) (tcbs s),
       SCHED := lifted k (SCHED s)\<rparr>"
proof (induction k arbitrary: s)
  case 0
  then have "take (Suc 0) (SCHED s) = [SCHED s ! 0]"
    by (cases "SCHED s") auto
  with 0 show ?case
    by (simp add: boost_from_step boost_from_stop boost_level_eq [OF _ _ refl]
          PRIORITY_LISTS_def lifted_0)
next
  case (Suc k)
  let ?l = "SCHED s ! Suc k"
  let ?s1 = "s\<lparr>tcbs := raise_priority ?l (tcbs s),
       SCHED := (SCHED s)[Suc k := [], Suc (Suc k) := SCHED s ! Suc (Suc k) @ ?l]\<rparr>"
  have lv: "boost_level (int (Suc k)) s = ?s1"
    using Suc.prems boost_level_eq [of "int (Suc k)" s ?l]
    by (simp add: PRIORITY_LISTS_def nat_add_distrib)
  have "boost_from (int (Suc k)) s = boost_from (int k) ?s1"
    using boost_from_step [of "int (Suc k)" s] lv by simp
  also have "\<dots> = ?s1\<lparr>tcbs := raise_priority (concat (rev (take (Suc k) (SCHED ?s1)))) (tcbs ?s1),
       SCHED := lifted k (SCHED ?s1)\<rparr>"
    using Suc.prems by (intro Suc.IH) simp
  also have "\<dots> = s\<lparr>tcbs := raise_priority (concat (rev (take (Suc (Suc k)) (SCHED s)))) (tcbs s),
       SCHED := lifted (Suc k) (SCHED s)\<rparr>"
    using Suc.prems
    by (simp add: lifted_Suc raise_priority_append take_Suc_conv_app_nth [of "Suc k"])
  finally show ?case .
qed


lemma boost_eq:
  assumes "2 \<le> length (SCHED s)"
  shows "boost s =
     s\<lparr>tcbs := raise_priority (concat (rev (butlast (SCHED s)))) (tcbs s),
       SCHED := lifted (length (SCHED s) - 2) (SCHED s),
       counter_congestion := 0\<rparr>"
proof -
  obtain k where k: "length (SCHED s) = Suc (Suc k)"
    using assms by (metis Suc_le_D numeral_2_eq_2 Suc_le_mono)
  have "TOP_PRIORITY (s\<lparr>counter_congestion := 0\<rparr>) - 1 = int k"
    using k by (simp add: TOP_PRIORITY_def PRIORITY_LISTS_def)
  moreover have "take (Suc k) (SCHED s) = butlast (SCHED s)"
    using k by (simp add: butlast_conv_take)
  ultimately show ?thesis
    using k boost_from_eq [of k "s\<lparr>counter_congestion := 0\<rparr>"]
    by (simp add: boost_def)
qed

lemma boost_single:
  assumes "length (SCHED s) < 2"
  shows "boost s = s\<lparr>counter_congestion := 0\<rparr>"
proof -
  have "TOP_PRIORITY (s\<lparr>counter_congestion := 0\<rparr>) - 1 < 0"
    using assms by (simp add: TOP_PRIORITY_def PRIORITY_LISTS_def)
  then show ?thesis
    by (simp add: boost_def boost_from_stop)
qed

lemma length_lifted: "Suc k < length q \<Longrightarrow> length (lifted k q) = length q"
  by (simp add: lifted_def)

lemma lifted_nth_0: "lifted k q ! 0 = []"
  by (simp add: lifted_def)

lemma lifted_nth_Suc: "j < k \<Longrightarrow> Suc k < length q \<Longrightarrow> lifted k q ! Suc j = q ! j"
  by (simp add: lifted_def nth_append)

lemma lifted_nth_top: "Suc k < length q \<Longrightarrow> lifted k q ! Suc k = q ! Suc k @ q ! k"
  by (simp add: lifted_def nth_append)

lemma mset_concat_lifted:
  assumes "length q = Suc (Suc k)"
  shows "mset (concat (lifted k q)) = mset (concat q)"
proof -
  have "q = take k q @ [q ! k, q ! Suc k]"
    using assms
    by (metis Cons_nth_drop_Suc append_take_drop_id drop_all lessI less_SucI order_refl)
  then have "concat q = concat (take k q) @ q ! k @ q ! Suc k"
    by (metis concat.simps concat_append append_Nil2)
  moreover have "concat (lifted k q) = concat (take k q) @ q ! Suc k @ q ! k"
    using assms by (simp add: lifted_def)
  ultimately show ?thesis by simp
qed

lemma boost_other_fields:
  "fail_safe (boost s) = fail_safe s \<and> TIMEOUT_LIST (boost s) = TIMEOUT_LIST s
   \<and> pcbs (boost s) = pcbs s \<and> ptcbs (boost s) = ptcbs s \<and> live (boost s) = live s
   \<and> active_threads (boost s) = active_threads s \<and> CURTHREAD (boost s) = CURTHREAD s
   \<and> idle_thread (boost s) = idle_thread s \<and> counter_congestion (boost s) = 0
   \<and> length (SCHED (boost s)) = length (SCHED s)"
proof (cases "2 \<le> length (SCHED s)")
  case True
  then show ?thesis by (simp add: boost_eq length_lifted)
next
  case False
  then show ?thesis by (simp add: boost_single)
qed

lemma boost_mset: "mset (concat (SCHED (boost s))) = mset (concat (SCHED s))"
proof (cases "2 \<le> length (SCHED s)")
  case True
  then obtain k where k: "length (SCHED s) = Suc (Suc k)"
    by (metis Suc_le_D numeral_2_eq_2 Suc_le_mono)
  with True show ?thesis by (simp add: boost_eq mset_concat_lifted)
next
  case False
  then show ?thesis by (simp add: boost_single)
qed

lemma count_in_lower:
  assumes "distinct (concat q)" and "p < m" and "m \<le> length q" and "t \<in> set (q ! p)"
  shows "count_list (concat (rev (take m q))) t = 1"
proof -
  have "distinct (concat (take m q))"
    using assms(1) by (metis append_take_drop_id concat_append distinct_append)
  moreover have "q ! p \<in> set (take m q)"
    using assms(2,3) by (metis nth_take length_take min.absorb2 nth_mem)
  then have "t \<in> set (concat (take m q))"
    using assms(4) by auto
  ultimately have "count (mset (concat (take m q))) t = 1"
    by (simp add: distinct_count_atmost_1)
  moreover have "mset (concat (rev (take m q))) = mset (concat (take m q))"
    by (simp add: mset_concat sum_mset_sum_list [symmetric])
  ultimately show ?thesis by (metis count_mset)
qed

lemma count_in_top:
  assumes "distinct (concat q)" and "m < length q" and "t \<in> set (q ! m)"
  shows "count_list (concat (rev (take m q))) t = 0"
proof -
  have "q = take m q @ q ! m # drop (Suc m) q"
    using assms(2) by (simp add: id_take_nth_drop [symmetric])
  then have "concat q = concat (take m q) @ q ! m @ concat (drop (Suc m) q)"
    by (metis concat.simps(2) concat_append)
  with assms(1,3) have "t \<notin> set (concat (take m q))"
    by (metis distinct_append disjoint_iff Un_iff set_append)
  then have "t \<notin> set (concat (rev (take m q)))"
    by simp
  then show ?thesis by (simp add: count_list_0_iff)
qed

text \<open>
  C4. With at least two priority lists and every node in at most one ready queue,
  \<^verbatim>\<open>boost\<close> sets \<^verbatim>\<open>counter_congestion\<close> to 0, keeps the multiset of nodes in the ready
  queues, leaves the lowest queue empty, leaves the blocks of the threads of the top queue
  as they are (and the threads in the top queue), and raises by exactly one the priority
  of every thread of a queue below the top, which is then in the queue one level up.
\<close>

theorem boost_conserves_and_lifts:
  assumes "2 \<le> PRIORITY_LISTS s" and "distinct (concat (SCHED s))"
  shows "counter_congestion (boost s) = 0
     \<and> mset (concat (SCHED (boost s))) = mset (concat (SCHED s))
     \<and> SCHED (boost s) ! nat LOWEST_PRIORITY = []
     \<and> (\<forall>t. t \<in> set (SCHED s ! nat (TOP_PRIORITY s)) \<longrightarrow>
           tcbs (boost s) t = tcbs s t \<and> t \<in> set (SCHED (boost s) ! nat (TOP_PRIORITY s)))
     \<and> (\<forall>p t. LOWEST_PRIORITY \<le> p \<and> p < TOP_PRIORITY s \<and> t \<in> set (SCHED s ! nat p) \<longrightarrow>
           priority (tcbs (boost s) t) = priority (tcbs s t) + 1
           \<and> t \<in> set (SCHED (boost s) ! nat (p + 1)))"
proof -
  from assms(1) obtain k where k: "length (SCHED s) = Suc (Suc k)"
    by (metis PRIORITY_LISTS_def Suc_le_D numeral_2_eq_2 Suc_le_mono nat_int_comparison(3)
          of_nat_numeral)
  then have two: "2 \<le> length (SCHED s)" by simp
  have ntop: "nat (TOP_PRIORITY s) = Suc k" "nat (TOP_PRIORITY s - 1) = k"
    and itop: "TOP_PRIORITY s = int k + 1"
    using k by (simp_all add: TOP_PRIORITY_def PRIORITY_LISTS_def)
  have bl: "butlast (SCHED s) = take (Suc k) (SCHED s)"
    using k by (simp add: butlast_conv_take)
  have q: "SCHED (boost s) = lifted k (SCHED s)"
    and h: "tcbs (boost s) = raise_priority (concat (rev (take (Suc k) (SCHED s)))) (tcbs s)"
    using k bl by (simp_all add: boost_eq [OF two])
  have "\<forall>t. t \<in> set (SCHED s ! nat (TOP_PRIORITY s)) \<longrightarrow>
           tcbs (boost s) t = tcbs s t \<and> t \<in> set (SCHED (boost s) ! nat (TOP_PRIORITY s))"
    using k assms(2) by (simp add: ntop q h lifted_nth_top raise_priority_def count_in_top)
  moreover have "\<forall>p t. LOWEST_PRIORITY \<le> p \<and> p < TOP_PRIORITY s \<and> t \<in> set (SCHED s ! nat p) \<longrightarrow>
           priority (tcbs (boost s) t) = priority (tcbs s t) + 1
           \<and> t \<in> set (SCHED (boost s) ! nat (p + 1))"
  proof (intro allI impI, elim conjE)
    fix p t
    assume p: "LOWEST_PRIORITY \<le> p" "p < TOP_PRIORITY s" and t: "t \<in> set (SCHED s ! nat p)"
    then have lt: "nat p < Suc k" and np: "nat (p + 1) = Suc (nat p)"
      by (simp_all add: itop LOWEST_PRIORITY_def)
    have "count_list (concat (rev (take (Suc k) (SCHED s)))) t = 1"
      using assms(2) lt t k by (intro count_in_lower [of _ "nat p"]) simp_all
    then have "priority (tcbs (boost s) t) = priority (tcbs s t) + 1"
      by (simp add: h raise_priority_def)
    moreover have "t \<in> set (SCHED (boost s) ! nat (p + 1))"
    proof (cases "nat p < k")
      case True
      then show ?thesis using t k by (simp add: q np lifted_nth_Suc)
    next
      case False
      with lt have "nat p = k" by simp
      then show ?thesis using t k by (simp add: q np lifted_nth_top)
    qed
    ultimately show "priority (tcbs (boost s) t) = priority (tcbs s t) + 1
           \<and> t \<in> set (SCHED (boost s) ! nat (p + 1))" ..
  qed
  moreover have "counter_congestion (boost s) = 0"
    by (simp add: boost_other_fields)
  moreover have "mset (concat (SCHED (boost s))) = mset (concat (SCHED s))"
    by (rule boost_mset)
  moreover have "SCHED (boost s) ! nat LOWEST_PRIORITY = []"
    by (simp add: q lifted_nth_0 LOWEST_PRIORITY_def)
  ultimately show ?thesis by blast
qed

theorem boost_conserves_and_lifts_witness:
  "2 \<le> PRIORITY_LISTS busy_sched \<and> distinct (concat (SCHED busy_sched))
   \<and> counter_congestion (boost busy_sched) = 0
   \<and> mset (concat (SCHED (boost busy_sched))) = {#1, 2, 3, 4#}
   \<and> SCHED (boost busy_sched) ! 0 = []
   \<and> priority (tcbs (boost busy_sched) 3) = 2
   \<and> priority (tcbs (boost busy_sched) 4) = 1
   \<and> 4 \<in> set (SCHED (boost busy_sched) ! 1)"
proof -
  have h1: "2 \<le> PRIORITY_LISTS busy_sched"
    by (simp add: busy_sched_def PRIORITY_LISTS_def)
  have h2: "distinct (concat (SCHED busy_sched))"
    by (simp add: busy_sched_def)
  have top: "TOP_PRIORITY busy_sched = 2"
    by (simp add: busy_sched_def TOP_PRIORITY_def PRIORITY_LISTS_def)
  note b = boost_conserves_and_lifts [OF h1 h2]
  have a: "3 \<in> set (SCHED busy_sched ! nat (TOP_PRIORITY busy_sched))"
    by (simp add: top) (simp add: busy_sched_def)
  have c: "LOWEST_PRIORITY \<le> 0 \<and> 0 < TOP_PRIORITY busy_sched \<and> 4 \<in> set (SCHED busy_sched ! nat 0)"
    by (simp add: top LOWEST_PRIORITY_def) (simp add: busy_sched_def)
  from b a have "tcbs (boost busy_sched) 3 = tcbs busy_sched 3" by blast
  then have p3: "priority (tcbs (boost busy_sched) 3) = 2"
    by (simp add: busy_sched_def)
  from b c have "priority (tcbs (boost busy_sched) 4) = priority (tcbs busy_sched 4) + 1
      \<and> 4 \<in> set (SCHED (boost busy_sched) ! nat (0 + 1))" by blast
  then have p4: "priority (tcbs (boost busy_sched) 4) = 1 \<and> 4 \<in> set (SCHED (boost busy_sched) ! 1)"
    by (simp add: busy_sched_def)
  from b have "mset (concat (SCHED (boost busy_sched))) = mset (concat (SCHED busy_sched))"
    by blast
  then have m: "mset (concat (SCHED (boost busy_sched))) = {#1, 2, 3, 4#}"
    by (simp add: busy_sched_def)
  from b have "counter_congestion (boost busy_sched) = 0 \<and> SCHED (boost busy_sched) ! 0 = []"
    by (simp add: LOWEST_PRIORITY_def)
  with h1 h2 p3 p4 m show ?thesis by blast
qed

text \<open>
  C10. With at least two priority lists, \<^verbatim>\<open>boost\<close> moves every queue below the top one
  level up as it is: queue \<open>p + 1\<close> below the top is the former queue \<open>p\<close>, in the same
  order, and the top queue is its former content followed by the former content of the
  queue below it. The lowest queue is empty, so no thread moves more than one level.
\<close>

theorem boost_keeps_fifo_order:
  assumes "2 \<le> PRIORITY_LISTS s"
  shows "(\<forall>p. LOWEST_PRIORITY \<le> p \<and> p + 1 < TOP_PRIORITY s \<longrightarrow>
            SCHED (boost s) ! nat (p + 1) = SCHED s ! nat p)
     \<and> SCHED (boost s) ! nat (TOP_PRIORITY s) =
         SCHED s ! nat (TOP_PRIORITY s) @ SCHED s ! nat (TOP_PRIORITY s - 1)
     \<and> SCHED (boost s) ! nat LOWEST_PRIORITY = []
     \<and> PRIORITY_LISTS (boost s) = PRIORITY_LISTS s"
proof -
  from assms obtain k where k: "length (SCHED s) = Suc (Suc k)"
    by (metis PRIORITY_LISTS_def Suc_le_D numeral_2_eq_2 Suc_le_mono nat_int_comparison(3)
          of_nat_numeral)
  then have two: "2 \<le> length (SCHED s)" by simp
  have ntop: "nat (TOP_PRIORITY s) = Suc k" "nat (TOP_PRIORITY s - 1) = k"
    and itop: "TOP_PRIORITY s = int k + 1"
    using k by (simp_all add: TOP_PRIORITY_def PRIORITY_LISTS_def)
  have q: "SCHED (boost s) = lifted k (SCHED s)"
    using k by (simp add: boost_eq [OF two])
  have "\<forall>p. LOWEST_PRIORITY \<le> p \<and> p + 1 < TOP_PRIORITY s \<longrightarrow>
            SCHED (boost s) ! nat (p + 1) = SCHED s ! nat p"
  proof (intro allI impI, elim conjE)
    fix p
    assume p: "LOWEST_PRIORITY \<le> p" "p + 1 < TOP_PRIORITY s"
    then have "nat p < k" and "nat (p + 1) = Suc (nat p)"
      by (simp_all add: itop LOWEST_PRIORITY_def)
    then show "SCHED (boost s) ! nat (p + 1) = SCHED s ! nat p"
      using k by (simp add: q lifted_nth_Suc)
  qed
  moreover have "SCHED (boost s) ! nat (TOP_PRIORITY s) =
         SCHED s ! nat (TOP_PRIORITY s) @ SCHED s ! nat (TOP_PRIORITY s - 1)"
    using k by (simp add: ntop q lifted_nth_top)
  moreover have "SCHED (boost s) ! nat LOWEST_PRIORITY = []"
    by (simp add: q lifted_nth_0 LOWEST_PRIORITY_def)
  moreover have "PRIORITY_LISTS (boost s) = PRIORITY_LISTS s"
    by (simp add: PRIORITY_LISTS_def boost_other_fields)
  ultimately show ?thesis by blast
qed

theorem boost_keeps_fifo_order_witness:
  "2 \<le> PRIORITY_LISTS busy_sched
   \<and> SCHED (boost busy_sched) ! 1 = [1, 4]
   \<and> SCHED (boost busy_sched) ! 2 = [3, 2]
   \<and> SCHED (boost busy_sched) ! 0 = []"
proof -
  have h1: "2 \<le> PRIORITY_LISTS busy_sched"
    by (simp add: busy_sched_def PRIORITY_LISTS_def)
  have top: "TOP_PRIORITY busy_sched = 2"
    by (simp add: busy_sched_def TOP_PRIORITY_def PRIORITY_LISTS_def)
  note b = boost_keeps_fifo_order [OF h1]
  have "LOWEST_PRIORITY \<le> 0 \<and> 0 + 1 < TOP_PRIORITY busy_sched"
    by (simp add: top LOWEST_PRIORITY_def)
  with b have "SCHED (boost busy_sched) ! nat (0 + 1) = SCHED busy_sched ! nat 0" by blast
  then have a: "SCHED (boost busy_sched) ! 1 = [1, 4]"
    by (simp add: busy_sched_def)
  from b have "SCHED (boost busy_sched) ! nat (TOP_PRIORITY busy_sched) =
         SCHED busy_sched ! nat (TOP_PRIORITY busy_sched)
         @ SCHED busy_sched ! nat (TOP_PRIORITY busy_sched - 1)" by blast
  then have c: "SCHED (boost busy_sched) ! 2 = [3, 2]"
    by (simp add: top) (simp add: busy_sched_def)
  from b have "SCHED (boost busy_sched) ! 0 = []"
    by (simp add: LOWEST_PRIORITY_def)
  with h1 a c show ?thesis by blast
qed

subsection \<open>Selection\<close>

lemma same_counters_refl: "same_counters s s"
  by (simp add: same_counters_def)

lemma same_counters_trans: "same_counters s s1 \<Longrightarrow> same_counters s1 s2 \<Longrightarrow> same_counters s s2"
  by (simp add: same_counters_def)

lemma tcb_upd_counters: "same_counters s (tcb_upd t f s)"
  by (simp add: same_counters_def tcb_upd_def)

lemma rlist_remove_counters: "same_counters s (rlist_remove n s)"
  by (simp add: same_counters_def rlist_remove_def)

lemma sched_queue_add_counters: "sched_queue_add tcb s = Inr s' \<Longrightarrow> same_counters s s'"
  by (drule sched_queue_add_fields) (simp add: same_counters_def)

lemma sched_make_ready_cases:
  assumes "sched_make_ready cfg tcb s = Inr s'"
  shows "(state (tcbs s tcb) = STOPPED \<or> state (tcbs s tcb) = INIT)
     \<and> (wakeup_time (tcbs s tcb) \<noteq> NO_TIMEOUT cfg \<longrightarrow> linked tcb s \<and> state (tcbs s tcb) = STOPPED)
     \<and> (let s1 = (if wakeup_time (tcbs s tcb) \<noteq> NO_TIMEOUT cfg
                  then tcb_upd tcb (\<lambda>b. b\<lparr>wakeup_time := NO_TIMEOUT cfg\<rparr>) (rlist_remove tcb s)
                  else s);
             s2 = tcb_upd tcb (\<lambda>b. b\<lparr>state := READY\<rparr>) s1
         in if phase (tcbs s tcb) = CTX_CLEAN then sched_queue_add tcb s2 = Inr s' else s' = s2)"
proof -
  have ph: "\<And>f g u. phase (tcbs (tcb_upd tcb (\<lambda>b. b\<lparr>state := READY\<rparr>)
                 (if u then tcb_upd tcb (\<lambda>b. b\<lparr>wakeup_time := NO_TIMEOUT cfg\<rparr>) (rlist_remove tcb s)
                  else s)) tcb) = phase (tcbs s tcb)"
    by (simp add: tcb_upd_def rlist_remove_def)
  from assms show ?thesis
    unfolding sched_make_ready_def Let_def ph
    by (simp split: if_splits)
qed

lemma sched_make_ready_counters:
  assumes "sched_make_ready cfg tcb s = Inr s'"
  shows "same_counters s s'"
proof -
  let ?s1 = "if wakeup_time (tcbs s tcb) \<noteq> NO_TIMEOUT cfg
             then tcb_upd tcb (\<lambda>b. b\<lparr>wakeup_time := NO_TIMEOUT cfg\<rparr>) (rlist_remove tcb s)
             else s"
  let ?s2 = "tcb_upd tcb (\<lambda>b. b\<lparr>state := READY\<rparr>) ?s1"
  have "same_counters s ?s1"
    using same_counters_trans [OF rlist_remove_counters tcb_upd_counters]
    by (simp add: same_counters_refl)
  then have s2: "same_counters s ?s2"
    using tcb_upd_counters by (rule same_counters_trans)
  from sched_make_ready_cases [OF assms]
  have "sched_queue_add tcb ?s2 = Inr s' \<or> s' = ?s2"
    by (simp add: Let_def split: if_splits)
  then show ?thesis
  proof
    assume "sched_queue_add tcb ?s2 = Inr s'"
    then have "same_counters ?s2 s'" by (rule sched_queue_add_counters)
    with s2 show ?thesis by (rule same_counters_trans)
  next
    assume "s' = ?s2"
    with s2 show ?thesis by simp
  qed
qed

lemma drain_timeouts_unfold:
  "drain_timeouts cfg curtime s =
     (case TIMEOUT_LIST s of
        [] \<Rightarrow> Inr s
      | tcb # ns \<Rightarrow>
          if curtime < wakeup_time (tcbs s tcb) then Inr s
          else (case sched_make_ready cfg tcb s of
                  Inl e \<Rightarrow> Inl e
                | Inr s' \<Rightarrow> drain_timeouts cfg curtime s'))"
  by (subst drain_timeouts.simps) (simp add: is_rlist_empty_def split: list.splits)

lemma drain_timeouts_counters:
  "drain_timeouts cfg curtime s = Inr s' \<Longrightarrow> same_counters s s'"
proof (induction cfg curtime s rule: drain_timeouts.induct)
  case (1 cfg curtime s)
  show ?case
  proof (cases "TIMEOUT_LIST s")
    case Nil
    with "1.prems" show ?thesis
      by (simp add: drain_timeouts_unfold same_counters_refl)
  next
    case (Cons tcb ns)
    show ?thesis
    proof (cases "curtime < wakeup_time (tcbs s tcb)")
      case True
      with Cons "1.prems" show ?thesis
        by (simp add: drain_timeouts_unfold same_counters_refl)
    next
      case False
      with Cons "1.prems" obtain s1 where r: "sched_make_ready cfg tcb s = Inr s1"
        and d: "drain_timeouts cfg curtime s1 = Inr s'"
        by (auto simp: drain_timeouts_unfold [of cfg curtime s] split: sum.splits)
      have "same_counters s1 s'"
        using Cons False r d by (intro "1.IH") (simp_all add: is_rlist_empty_def)
      with sched_make_ready_counters [OF r] show ?thesis
        by (rule same_counters_trans)
    qed
  qed
qed

lemma drain_timeouts_head:
  "drain_timeouts cfg curtime s = Inr s' \<Longrightarrow>
     TIMEOUT_LIST s' = [] \<or> curtime < wakeup_time (tcbs s' (hd (TIMEOUT_LIST s')))"
proof (induction cfg curtime s rule: drain_timeouts.induct)
  case (1 cfg curtime s)
  show ?case
  proof (cases "TIMEOUT_LIST s")
    case Nil
    with "1.prems" show ?thesis
      by (simp add: drain_timeouts_unfold)
  next
    case (Cons tcb ns)
    show ?thesis
    proof (cases "curtime < wakeup_time (tcbs s tcb)")
      case True
      with Cons "1.prems" show ?thesis
        by (auto simp: drain_timeouts_unfold)
    next
      case False
      with Cons "1.prems" obtain s1 where r: "sched_make_ready cfg tcb s = Inr s1"
        and d: "drain_timeouts cfg curtime s1 = Inr s'"
        by (auto simp: drain_timeouts_unfold [of cfg curtime s] split: sum.splits)
      show ?thesis
        using Cons False r d by (intro "1.IH") (simp_all add: is_rlist_empty_def)
    qed
  qed
qed

lemma search_lists_stop: "i < 0 \<Longrightarrow> search_lists i s = (i, None, s)"
  by (subst search_lists.simps) (simp add: LOWEST_PRIORITY_def)

text \<open>The pop never returns \<^verbatim>\<open>NULL\<close>, so the search loop ends in its first round.\<close>

lemma search_lists_top:
  "0 \<le> i \<Longrightarrow>
   search_lists i s =
     (i, Some (case SCHED s ! nat i of [] \<Rightarrow> ListHead | n # ns \<Rightarrow> TcbNode n),
      s\<lparr>SCHED := (SCHED s)[nat i := tl (SCHED s ! nat i)]\<rparr>)"
  by (subst search_lists.simps)
     (simp add: LOWEST_PRIORITY_def rlist_pop_front_def split: list.splits)

lemma search_lists_counters:
  assumes "search_lists i s = (j, sel, s')"
  shows "fail_safe s' = fail_safe s \<and> counter_congestion s' = counter_congestion s
     \<and> tcbs s' = tcbs s \<and> TIMEOUT_LIST s' = TIMEOUT_LIST s"
proof (cases "0 \<le> i")
  case True
  from assms have "snd (snd (search_lists i s)) = s'" by simp
  then have "s\<lparr>SCHED := (SCHED s)[nat i := tl (SCHED s ! nat i)]\<rparr> = s'"
    by (simp only: search_lists_top [OF True] snd_conv)
  then have "s' = s\<lparr>SCHED := (SCHED s)[nat i := tl (SCHED s ! nat i)]\<rparr>"
    by (rule sym)
  then show ?thesis by simp
next
  case False
  with assms have "s' = s" by (simp add: search_lists_stop)
  then show ?thesis by simp
qed

lemma check_lower_eq:
  "0 \<le> i \<Longrightarrow>
   check_lower i s =
     (if \<exists>q. 0 \<le> q \<and> q \<le> i \<and> SCHED s ! nat q \<noteq> [] then congestion_grow s
      else congestion_drop s)"
proof (induction i s rule: check_lower.induct)
  case (1 i s)
  show ?case
  proof (cases "SCHED s ! nat i = []")
    case False
    with "1.prems" show ?thesis
      by (subst check_lower.simps) (auto simp: LOWEST_PRIORITY_def is_rlist_empty_def)
  next
    case True
    show ?thesis
    proof (cases "i = 0")
      case True
      with \<open>SCHED s ! nat i = []\<close> have "\<not> (\<exists>q. 0 \<le> q \<and> q \<le> i \<and> SCHED s ! nat q \<noteq> [])"
        by (metis order_antisym)
      then have rhs: "(if \<exists>q. 0 \<le> q \<and> q \<le> i \<and> SCHED s ! nat q \<noteq> [] then congestion_grow s
          else congestion_drop s) = congestion_drop s"
        by (simp only: if_False)
      have lhs: "check_lower i s = congestion_drop s"
        using True \<open>SCHED s ! nat i = []\<close>
        by (subst check_lower.simps) (simp add: LOWEST_PRIORITY_def is_rlist_empty_def)
      show ?thesis by (simp only: lhs rhs)
    next
      case False
      with "1.prems" have pos: "0 \<le> i - 1" by simp
      have step: "check_lower i s = check_lower (i - 1) s"
        using "1.prems" False True
        by (subst check_lower.simps) (simp add: LOWEST_PRIORITY_def is_rlist_empty_def)
      have ih: "check_lower (i - 1) s =
         (if \<exists>q. 0 \<le> q \<and> q \<le> i - 1 \<and> SCHED s ! nat q \<noteq> [] then congestion_grow s
          else congestion_drop s)"
        using "1.prems" False True pos
        by (intro "1.IH") (simp_all add: LOWEST_PRIORITY_def is_rlist_empty_def)
      have "(\<exists>q. 0 \<le> q \<and> q \<le> i - 1 \<and> SCHED s ! nat q \<noteq> [])
          = (\<exists>q. 0 \<le> q \<and> q \<le> i \<and> SCHED s ! nat q \<noteq> [])"
      proof
        assume "\<exists>q. 0 \<le> q \<and> q \<le> i - 1 \<and> SCHED s ! nat q \<noteq> []"
        then obtain q where "0 \<le> q" "q \<le> i - 1" "SCHED s ! nat q \<noteq> []" by blast
        then have "0 \<le> q \<and> q \<le> i \<and> SCHED s ! nat q \<noteq> []" by simp
        then show "\<exists>q. 0 \<le> q \<and> q \<le> i \<and> SCHED s ! nat q \<noteq> []" ..
      next
        assume "\<exists>q. 0 \<le> q \<and> q \<le> i \<and> SCHED s ! nat q \<noteq> []"
        then obtain q where q: "0 \<le> q" "q \<le> i" "SCHED s ! nat q \<noteq> []" by blast
        with True have "q \<noteq> i" by auto
        with q have "0 \<le> q \<and> q \<le> i - 1 \<and> SCHED s ! nat q \<noteq> []" by simp
        then show "\<exists>q. 0 \<le> q \<and> q \<le> i - 1 \<and> SCHED s ! nat q \<noteq> []" ..
      qed
      with step ih show ?thesis by simp
    qed
  qed
qed

lemma update_congestion_eq:
  assumes "INT_MIN < counter_congestion s" and "counter_congestion s < INT_MAX"
  shows "update_congestion i s =
     Inr (s\<lparr>counter_congestion :=
             (if \<exists>q. 0 \<le> q \<and> q < i \<and> SCHED s ! nat q \<noteq> []
              then max 0 (counter_congestion s + 1)
              else max 0 (counter_congestion s - 1))\<rparr>)"
proof (cases "i \<le> 0")
  case True
  then have "\<not> (\<exists>q. 0 \<le> q \<and> q < i \<and> SCHED s ! nat q \<noteq> [])" by auto
  then have rhs: "(if \<exists>q. 0 \<le> q \<and> q < i \<and> SCHED s ! nat q \<noteq> []
              then max 0 (counter_congestion s + 1)
              else max 0 (counter_congestion s - 1)) = max 0 (counter_congestion s - 1)"
    by (simp only: if_False)
  show ?thesis
    unfolding rhs using True assms
    by (simp add: update_congestion_def congestion_drop_def LOWEST_PRIORITY_def max_def)
next
  case False
  then have pos: "0 \<le> i - 1" by simp
  have iff: "(\<exists>q. 0 \<le> q \<and> q \<le> i - 1 \<and> SCHED s ! nat q \<noteq> [])
           = (\<exists>q. 0 \<le> q \<and> q < i \<and> SCHED s ! nat q \<noteq> [])"
    by (rule arg_cong [where f = Ex]) (rule ext, auto)
  show ?thesis
  proof (cases "\<exists>q. 0 \<le> q \<and> q < i \<and> SCHED s ! nat q \<noteq> []")
    case True
    then have rhs: "(if \<exists>q. 0 \<le> q \<and> q < i \<and> SCHED s ! nat q \<noteq> []
              then max 0 (counter_congestion s + 1)
              else max 0 (counter_congestion s - 1)) = max 0 (counter_congestion s + 1)"
      by (simp only: if_True)
    have "check_lower (i - 1) s = congestion_grow s"
      using True by (simp only: check_lower_eq [OF pos] iff if_True)
    then show ?thesis
      unfolding rhs using False assms
      by (simp add: update_congestion_def congestion_grow_def LOWEST_PRIORITY_def max_def)
  next
    case False
    then have rhs: "(if \<exists>q. 0 \<le> q \<and> q < i \<and> SCHED s ! nat q \<noteq> []
              then max 0 (counter_congestion s + 1)
              else max 0 (counter_congestion s - 1)) = max 0 (counter_congestion s - 1)"
      by (simp only: if_False)
    have "check_lower (i - 1) s = congestion_drop s"
      using False by (simp only: check_lower_eq [OF pos] iff if_False)
    then show ?thesis
      unfolding rhs using \<open>\<not> i \<le> 0\<close> assms
      by (simp add: update_congestion_def congestion_drop_def LOWEST_PRIORITY_def max_def)
  qed
qed

lemma update_congestion_result:
  assumes "update_congestion i s = Inr s'"
  shows "0 \<le> counter_congestion s' \<and> fail_safe s' = fail_safe s"
proof -
  have g: "\<And>u. congestion_grow s = Inr u \<Longrightarrow> fail_safe u = fail_safe s"
    by (auto simp: congestion_grow_def split: if_splits)
  have d: "\<And>u. congestion_drop s = Inr u \<Longrightarrow> fail_safe u = fail_safe s"
    by (auto simp: congestion_drop_def split: if_splits)
  have c: "\<And>u. check_lower (i - 1) s = Inr u \<Longrightarrow> fail_safe u = fail_safe s"
  proof -
    fix u assume u: "check_lower (i - 1) s = Inr u"
    show "fail_safe u = fail_safe s"
    proof (cases "0 \<le> i - 1")
      case True
      from u g d show ?thesis
        unfolding check_lower_eq [OF True] by (simp split: if_splits)
    next
      case False
      with u show ?thesis
        by (subst (asm) check_lower.simps) (simp add: LOWEST_PRIORITY_def)
    qed
  qed
  from assms d c show ?thesis
    by (auto simp: update_congestion_def split: sum.splits if_splits)
qed

lemma update_congestion_fields:
  assumes "update_congestion i s = Inr s'"
  shows "tcbs s' = tcbs s \<and> SCHED s' = SCHED s \<and> TIMEOUT_LIST s' = TIMEOUT_LIST s"
proof -
  have g: "\<And>u. congestion_grow s = Inr u \<Longrightarrow> \<exists>c. u = s\<lparr>counter_congestion := c\<rparr>"
    by (auto simp: congestion_grow_def split: if_splits)
  have d: "\<And>u. congestion_drop s = Inr u \<Longrightarrow> \<exists>c. u = s\<lparr>counter_congestion := c\<rparr>"
    by (auto simp: congestion_drop_def split: if_splits)
  have c: "\<And>u. check_lower (i - 1) s = Inr u \<Longrightarrow> \<exists>c. u = s\<lparr>counter_congestion := c\<rparr>"
  proof -
    fix u assume u: "check_lower (i - 1) s = Inr u"
    show "\<exists>c. u = s\<lparr>counter_congestion := c\<rparr>"
    proof (cases "0 \<le> i - 1")
      case True
      from u have "congestion_grow s = Inr u \<or> congestion_drop s = Inr u"
        unfolding check_lower_eq [OF True] by (simp split: if_splits)
      with g d show ?thesis by blast
    next
      case False
      with u have "u = s"
        by (subst (asm) check_lower.simps) (simp add: LOWEST_PRIORITY_def)
      then have "u = s\<lparr>counter_congestion := counter_congestion s\<rparr>" by simp
      then show ?thesis ..
    qed
  qed
  from assms obtain s1 where
    a: "(if i \<le> LOWEST_PRIORITY then congestion_drop s else check_lower (i - 1) s) = Inr s1"
    and b: "s' = (if counter_congestion s1 < 0 then s1\<lparr>counter_congestion := 0\<rparr> else s1)"
    by (auto simp: update_congestion_def split: sum.splits)
  from a d c obtain c0 where "s1 = s\<lparr>counter_congestion := c0\<rparr>"
    by (cases "i \<le> LOWEST_PRIORITY") auto
  with b show ?thesis by simp
qed

lemma select_thread_fail_safe:
  assumes "select_thread cfg curtime s = Inr (sel, s5)"
  shows "fail_safe s5 = fail_safe s + 1 \<and> 0 \<le> counter_congestion s5"
proof -
  from assms obtain s1 where d: "drain_timeouts cfg curtime s = Inr s1"
    by (auto simp: select_thread_def split: sum.splits)
  obtain i sl s2 where sr: "search_lists (TOP_PRIORITY s1) s1 = (i, sl, s2)"
    by (metis prod_cases3)
  from assms d sr obtain s3 where u: "update_congestion i s2 = Inr s3"
    and r: "s5 = s3\<lparr>fail_safe := fail_safe s3 + 1\<rparr>"
    by (auto simp: select_thread_def split: sum.splits if_splits)
  from drain_timeouts_counters [OF d] search_lists_counters [OF sr]
    update_congestion_result [OF u] r
  show ?thesis by (simp add: same_counters_def)
qed

lemma sched_queue_select_cases:
  assumes "sched_queue_select cfg curtime s = Inr (r, s')"
  shows "\<exists>nd s5. r = node_tcb nd \<and> select_thread cfg curtime s = Inr (Some nd, s5)
           \<and> s' = (if boost_needed cfg s5 then boost s5 else s5)"
proof -
  from assms obtain sel s5 where st: "select_thread cfg curtime s = Inr (sel, s5)"
    by (auto simp: sched_queue_select_def split: sum.splits)
  with assms obtain nd where "sel = Some nd"
    by (cases sel) (simp_all add: sched_queue_select_def Let_def)
  with assms st have "r = node_tcb nd \<and> select_thread cfg curtime s = Inr (Some nd, s5)
           \<and> s' = (if boost_needed cfg s5 then boost s5 else s5)"
    by (auto simp: sched_queue_select_def Let_def)
  then show ?thesis by blast
qed

lemma lower_lists_update:
  "(\<exists>q. 0 \<le> q \<and> q < t \<and> (l[nat t := x]) ! nat q \<noteq> [])
     = (\<exists>q. 0 \<le> q \<and> q < t \<and> l ! nat q \<noteq> [])"
  by (rule arg_cong [where f = Ex]) (rule ext, auto)

text \<open>What a selection computes once the drain has succeeded, for at least one priority
  list and counters away from the bounds of \<^verbatim>\<open>int\<close>.\<close>

lemma select_thread_eq:
  assumes "drain_timeouts cfg curtime s = Inr s1" and "1 \<le> PRIORITY_LISTS s1"
    and "INT_MIN < counter_congestion s" and "counter_congestion s < INT_MAX"
    and "fail_safe s < INT_MAX"
  shows "select_thread cfg curtime s =
     Inr (Some (case SCHED s1 ! nat (TOP_PRIORITY s1) of [] \<Rightarrow> ListHead | n # ns \<Rightarrow> TcbNode n),
          s1\<lparr>SCHED := (SCHED s1)[nat (TOP_PRIORITY s1) := tl (SCHED s1 ! nat (TOP_PRIORITY s1))],
             counter_congestion :=
               (if \<exists>q. 0 \<le> q \<and> q < TOP_PRIORITY s1 \<and> SCHED s1 ! nat q \<noteq> []
                then max 0 (counter_congestion s + 1)
                else max 0 (counter_congestion s - 1)),
             fail_safe := fail_safe s + 1\<rparr>)"
proof -
  let ?t = "TOP_PRIORITY s1"
  let ?s2 = "s1\<lparr>SCHED := (SCHED s1)[nat ?t := tl (SCHED s1 ! nat ?t)]\<rparr>"
  have top: "0 \<le> ?t"
    using assms(2) by (simp add: TOP_PRIORITY_def)
  have keep: "counter_congestion s1 = counter_congestion s" "fail_safe s1 = fail_safe s"
    using drain_timeouts_counters [OF assms(1)] by (simp_all add: same_counters_def)
  have sr: "search_lists ?t s1 =
     (?t, Some (case SCHED s1 ! nat ?t of [] \<Rightarrow> ListHead | n # ns \<Rightarrow> TcbNode n), ?s2)"
    using top by (rule search_lists_top)
  have u0: "update_congestion ?t ?s2 =
     Inr (?s2\<lparr>counter_congestion :=
             (if \<exists>q. 0 \<le> q \<and> q < ?t \<and> SCHED ?s2 ! nat q \<noteq> []
              then max 0 (counter_congestion ?s2 + 1)
              else max 0 (counter_congestion ?s2 - 1))\<rparr>)"
    using assms(3,4) keep by (intro update_congestion_eq) simp_all
  have ex: "(\<exists>q. 0 \<le> q \<and> q < ?t \<and> SCHED ?s2 ! nat q \<noteq> [])
      = (\<exists>q. 0 \<le> q \<and> q < ?t \<and> SCHED s1 ! nat q \<noteq> [])"
    by (simp add: lower_lists_update)
  have cc2: "counter_congestion ?s2 = counter_congestion s"
    by (simp add: keep)
  have u: "update_congestion ?t ?s2 =
     Inr (?s2\<lparr>counter_congestion :=
             (if \<exists>q. 0 \<le> q \<and> q < ?t \<and> SCHED s1 ! nat q \<noteq> []
              then max 0 (counter_congestion s + 1)
              else max 0 (counter_congestion s - 1))\<rparr>)"
    using u0 by (simp only: ex cc2)
  show ?thesis
    using assms(5) keep(2)
    by (simp add: select_thread_def assms(1) sr u del: max_less_iff_conj)
qed

lemma sched_queue_select_eq:
  assumes "drain_timeouts cfg curtime s = Inr s1" and "1 \<le> PRIORITY_LISTS s1"
    and "INT_MIN < counter_congestion s" and "counter_congestion s < INT_MAX"
    and "fail_safe s < INT_MAX"
  shows "sched_queue_select cfg curtime s =
     Inr (case SCHED s1 ! nat (TOP_PRIORITY s1) of [] \<Rightarrow> None | n # ns \<Rightarrow> Some n,
          let s5 = s1\<lparr>SCHED := (SCHED s1)[nat (TOP_PRIORITY s1) :=
                                     tl (SCHED s1 ! nat (TOP_PRIORITY s1))],
                      counter_congestion :=
                        (if \<exists>q. 0 \<le> q \<and> q < TOP_PRIORITY s1 \<and> SCHED s1 ! nat q \<noteq> []
                         then max 0 (counter_congestion s + 1)
                         else max 0 (counter_congestion s - 1)),
                      fail_safe := fail_safe s + 1\<rparr>
          in if boost_needed cfg s5 then boost s5 else s5)"
proof -
  have n: "node_tcb (case SCHED s1 ! nat (TOP_PRIORITY s1) of [] \<Rightarrow> ListHead | n # ns \<Rightarrow> TcbNode n)
      = (case SCHED s1 ! nat (TOP_PRIORITY s1) of [] \<Rightarrow> None | n # ns \<Rightarrow> Some n)"
    by (simp split: list.splits)
  show ?thesis
    unfolding sched_queue_select_def select_thread_eq [OF assms]
    by (simp only: sum.case prod.case option.case n Let_def)
qed

lemma sched_queue_select_frame:
  assumes "sched_queue_select cfg curtime s = Inr (r, s')"
  shows "idle_thread s' = idle_thread s \<and> CURTHREAD s' = CURTHREAD s
     \<and> length (SCHED s') = length (SCHED s) \<and> pcbs s' = pcbs s \<and> ptcbs s' = ptcbs s
     \<and> live s' = live s \<and> active_threads s' = active_threads s"
proof -
  from sched_queue_select_cases [OF assms] obtain nd s5
    where st: "select_thread cfg curtime s = Inr (Some nd, s5)"
      and s': "s' = (if boost_needed cfg s5 then boost s5 else s5)"
    by blast
  from st obtain s1 where d: "drain_timeouts cfg curtime s = Inr s1"
    by (auto simp: select_thread_def split: sum.splits)
  obtain i sl s2 where sr: "search_lists (TOP_PRIORITY s1) s1 = (i, sl, s2)"
    by (metis prod_cases3)
  from st d sr obtain s3 where u: "update_congestion i s2 = Inr s3"
    and r: "s5 = s3\<lparr>fail_safe := fail_safe s3 + 1\<rparr>"
    by (auto simp: select_thread_def split: sum.splits if_splits)
  have f2: "idle_thread s2 = idle_thread s1 \<and> CURTHREAD s2 = CURTHREAD s1
     \<and> length (SCHED s2) = length (SCHED s1) \<and> pcbs s2 = pcbs s1 \<and> ptcbs s2 = ptcbs s1
     \<and> live s2 = live s1 \<and> active_threads s2 = active_threads s1"
  proof (cases "0 \<le> TOP_PRIORITY s1")
    case True
    from sr have "snd (snd (search_lists (TOP_PRIORITY s1) s1)) = s2" by simp
    then have "s1\<lparr>SCHED := (SCHED s1)[nat (TOP_PRIORITY s1) :=
                 tl (SCHED s1 ! nat (TOP_PRIORITY s1))]\<rparr> = s2"
      by (simp only: search_lists_top [OF True] snd_conv)
    then have "s2 = s1\<lparr>SCHED := (SCHED s1)[nat (TOP_PRIORITY s1) :=
                 tl (SCHED s1 ! nat (TOP_PRIORITY s1))]\<rparr>"
      by (rule sym)
    then show ?thesis by simp
  next
    case False
    with sr have "s2 = s1" by (simp add: search_lists_stop)
    then show ?thesis by simp
  qed
  have f3: "idle_thread s3 = idle_thread s2 \<and> CURTHREAD s3 = CURTHREAD s2
     \<and> length (SCHED s3) = length (SCHED s2) \<and> pcbs s3 = pcbs s2 \<and> ptcbs s3 = ptcbs s2
     \<and> live s3 = live s2 \<and> active_threads s3 = active_threads s2"
  proof -
    have g: "\<And>x v. congestion_grow x = Inr v \<Longrightarrow> \<exists>c. v = x\<lparr>counter_congestion := c\<rparr>"
      by (auto simp: congestion_grow_def split: if_splits)
    have dr: "\<And>x v. congestion_drop x = Inr v \<Longrightarrow> \<exists>c. v = x\<lparr>counter_congestion := c\<rparr>"
      by (auto simp: congestion_drop_def split: if_splits)
    from u obtain v where
      a: "(if i \<le> LOWEST_PRIORITY then congestion_drop s2 else check_lower (i - 1) s2) = Inr v"
      and b: "s3 = (if counter_congestion v < 0 then v\<lparr>counter_congestion := 0\<rparr> else v)"
      by (auto simp: update_congestion_def split: sum.splits)
    have "\<exists>c. v = s2\<lparr>counter_congestion := c\<rparr>"
    proof (cases "i \<le> LOWEST_PRIORITY")
      case True
      with a dr show ?thesis by simp
    next
      case False
      then have pos: "0 \<le> i - 1" by (simp add: LOWEST_PRIORITY_def)
      from a False have "congestion_grow s2 = Inr v \<or> congestion_drop s2 = Inr v"
        unfolding check_lower_eq [OF pos] by (simp split: if_splits)
      with g dr show ?thesis by blast
    qed
    then obtain c where "v = s2\<lparr>counter_congestion := c\<rparr>" ..
    with b show ?thesis by simp
  qed
  have f5: "idle_thread s' = idle_thread s3 \<and> CURTHREAD s' = CURTHREAD s3
     \<and> length (SCHED s') = length (SCHED s3) \<and> pcbs s' = pcbs s3 \<and> ptcbs s' = ptcbs s3
     \<and> live s' = live s3 \<and> active_threads s' = active_threads s3"
    using s' r by (simp add: boost_other_fields)
  from drain_timeouts_counters [OF d] f2 f3 f5 show ?thesis
    by (simp add: same_counters_def)
qed

lemma gain_curthread:
  assumes "gain cfg s = Inr s'"
  shows "CURTHREAD s' = CURTHREAD s \<and> idle_thread s' = idle_thread s"
proof -
  let ?cur = "CURTHREAD s"
  let ?prv = "prev (tcbs s ?cur)"
  let ?s1 = "tcb_upd ?cur (\<lambda>b. b\<lparr>state := RUNNING, phase := CTX_DIRTY\<rparr>) s"
  let ?s2 = "tcb_upd ?prv (\<lambda>b. b\<lparr>phase := CTX_CLEAN\<rparr>) ?s1"
  have f: "CURTHREAD ?s1 = CURTHREAD s \<and> idle_thread ?s1 = idle_thread s"
    "CURTHREAD ?s2 = CURTHREAD s \<and> idle_thread ?s2 = idle_thread s"
    by (simp_all add: tcb_upd_def)
  show ?thesis
  proof (cases "?cur \<noteq> ?prv")
    case False
    with assms f show ?thesis by (simp add: gain_def Let_def)
  next
    case True
    show ?thesis
    proof (cases "state (tcbs ?s2 ?prv)")
      case READY
      with assms True have "sched_queue_add ?prv ?s2 = Inr s' \<or> s' = ?s2"
        by (simp add: gain_def Let_def split: if_splits)
      with f show ?thesis by (auto dest: sched_queue_add_fields)
    next
      case EXITED
      with assms True f show ?thesis
        by (cases "owner_ptcb (tcbs ?s2 ?prv)")
           (auto simp: gain_def Let_def release_TCB_def)
    next
      case STOPPED
      with assms True f show ?thesis by (simp add: gain_def Let_def)
    next
      case INIT
      with assms True show ?thesis by (simp add: gain_def Let_def)
    next
      case RUNNING
      with assms True show ?thesis by (simp add: gain_def Let_def)
    qed
  qed
qed

lemma yield_outgoing_frame:
  assumes "yield_outgoing cause s = Inr (cr, s2)"
  shows "idle_thread s2 = idle_thread s \<and> CURTHREAD s2 = CURTHREAD s
     \<and> fail_safe s2 = fail_safe s
     \<and> (cr \<longleftrightarrow> state (tcbs s (CURTHREAD s)) = RUNNING \<or> state (tcbs s (CURTHREAD s)) = READY)"
proof -
  let ?cur = "CURTHREAD s"
  let ?s1 = "tcb_upd ?cur (yield_priority (TOP_PRIORITY s) cause) s"
  have st: "state (tcbs ?s1 ?cur) = state (tcbs s ?cur)"
    by (cases cause) (simp_all add: tcb_upd_def yield_priority_def Let_def)
  from assms show ?thesis
    unfolding yield_outgoing_def Let_def st
    by (cases "state (tcbs s ?cur)") (auto simp: tcb_upd_def)
qed

lemma yield_next_thread:
  assumes "yield_outgoing cause s = Inr (cr, s2)"
    and "sched_queue_select cfg curtime s2 = Inr (sel, s3)"
    and "yield cfg curtime cause s = Inr s'"
  shows "CURTHREAD s' =
     (case sel of None \<Rightarrow> if cr then CURTHREAD s else idle_thread s | Some n \<Rightarrow> n)"
proof -
  let ?cur = "CURTHREAD s"
  let ?nxt = "case sel of None \<Rightarrow> if cr then ?cur else idle_thread s3 | Some n \<Rightarrow> n"
  let ?s4 = "tcb_upd ?cur (\<lambda>b. b\<lparr>next_tcb := ?nxt\<rparr>) s3"
  let ?s5 = "tcb_upd ?nxt (\<lambda>b. b\<lparr>prev := ?cur\<rparr>) ?s4"
  let ?s6 = "if ?cur \<noteq> ?nxt then ?s5\<lparr>CURTHREAD := ?nxt\<rparr> else ?s5"
  from assms have g: "gain cfg ?s6 = Inr s'"
    by (simp add: yield_def Let_def)
  have c3: "CURTHREAD s3 = ?cur" "idle_thread s3 = idle_thread s"
    using sched_queue_select_frame [OF assms(2)] yield_outgoing_frame [OF assms(1)]
    by simp_all
  have "CURTHREAD ?s6 = ?nxt"
    using c3(1) by (simp add: tcb_upd_def)
  with gain_curthread [OF g] show ?thesis
    by (simp only: c3(2))
qed

text \<open>
  C1. When the drain of the timeout list wakes nobody it leaves the data as it is. When
  it has succeeded and every ready queue is empty after it (there being at least one
  priority list and the counters away from the bounds of \<^verbatim>\<open>int\<close>), the call returns
  \<^verbatim>\<open>NULL\<close>: the node the pop has delivered is the head of the top list, whose \<^verbatim>\<open>tcb\<close> is
  \<^verbatim>\<open>NULL\<close>, so the return statement reads a node and not a null pointer. The queues are
  as the drain left them, the congestion counter has gone down by one and not below 0,
  \<^verbatim>\<open>fail_safe\<close> has gone up by one, and a boost has run if it was due. In \<^verbatim>\<open>yield\<close> the
  core then goes on with the current thread when that was running or ready and with its
  idle thread otherwise.
\<close>

theorem select_returns_null_on_empty_queues:
  "((TIMEOUT_LIST s = [] \<or> curtime < wakeup_time (tcbs s (hd (TIMEOUT_LIST s)))) \<longrightarrow>
       drain_timeouts cfg curtime s = Inr s)
   \<and> (drain_timeouts cfg curtime s = Inr s1 \<and> (\<forall>q. q \<in> set (SCHED s1) \<longrightarrow> q = [])
       \<and> 1 \<le> PRIORITY_LISTS s1
       \<and> INT_MIN < counter_congestion s \<and> counter_congestion s < INT_MAX
       \<and> fail_safe s < INT_MAX \<longrightarrow>
         sched_queue_select cfg curtime s =
           Inr (None,
                let s5 = s1\<lparr>counter_congestion := max 0 (counter_congestion s - 1),
                            fail_safe := fail_safe s + 1\<rparr>
                in if boost_needed cfg s5 then boost s5 else s5))
   \<and> (\<forall>cr s2 s3 s'.
         yield_outgoing cause s = Inr (cr, s2)
         \<and> sched_queue_select cfg curtime s2 = Inr (None, s3)
         \<and> yield cfg curtime cause s = Inr s' \<longrightarrow>
           CURTHREAD s' = (if cr then CURTHREAD s else idle_thread s)
           \<and> (cr \<longleftrightarrow> state (tcbs s (CURTHREAD s)) = RUNNING
                    \<or> state (tcbs s (CURTHREAD s)) = READY))"
proof (intro conjI impI allI)
  assume "TIMEOUT_LIST s = [] \<or> curtime < wakeup_time (tcbs s (hd (TIMEOUT_LIST s)))"
  then show "drain_timeouts cfg curtime s = Inr s"
    by (cases "TIMEOUT_LIST s") (auto simp: drain_timeouts_unfold)
next
  assume a: "drain_timeouts cfg curtime s = Inr s1 \<and> (\<forall>q. q \<in> set (SCHED s1) \<longrightarrow> q = [])
       \<and> 1 \<le> PRIORITY_LISTS s1
       \<and> INT_MIN < counter_congestion s \<and> counter_congestion s < INT_MAX
       \<and> fail_safe s < INT_MAX"
  let ?t = "TOP_PRIORITY s1"
  from a have "1 \<le> length (SCHED s1)"
    by (simp add: PRIORITY_LISTS_def)
  then have len: "nat ?t < length (SCHED s1)"
    by (simp add: TOP_PRIORITY_def PRIORITY_LISTS_def nat_diff_distrib)
  with a have top: "SCHED s1 ! nat ?t = []"
    by (meson nth_mem)
  have low: "\<not> (\<exists>q. 0 \<le> q \<and> q < ?t \<and> SCHED s1 ! nat q \<noteq> [])"
  proof
    assume "\<exists>q. 0 \<le> q \<and> q < ?t \<and> SCHED s1 ! nat q \<noteq> []"
    then obtain q where q: "0 \<le> q" "q < ?t" "SCHED s1 ! nat q \<noteq> []" by blast
    with len have "nat q < length (SCHED s1)" by simp
    then have "SCHED s1 ! nat q \<in> set (SCHED s1)" by (rule nth_mem)
    with a q(3) show False by blast
  qed
  have upd: "(SCHED s1)[nat ?t := tl (SCHED s1 ! nat ?t)] = SCHED s1"
    using top by (simp add: list_update_same_conv len)
  have "sched_queue_select cfg curtime s =
     Inr (case SCHED s1 ! nat ?t of [] \<Rightarrow> None | n # ns \<Rightarrow> Some n,
          let s5 = s1\<lparr>SCHED := (SCHED s1)[nat ?t := tl (SCHED s1 ! nat ?t)],
                      counter_congestion :=
                        (if \<exists>q. 0 \<le> q \<and> q < ?t \<and> SCHED s1 ! nat q \<noteq> []
                         then max 0 (counter_congestion s + 1)
                         else max 0 (counter_congestion s - 1)),
                      fail_safe := fail_safe s + 1\<rparr>
          in if boost_needed cfg s5 then boost s5 else s5)"
    using a by (intro sched_queue_select_eq) simp_all
  then show "sched_queue_select cfg curtime s =
           Inr (None,
                let s5 = s1\<lparr>counter_congestion := max 0 (counter_congestion s - 1),
                            fail_safe := fail_safe s + 1\<rparr>
                in if boost_needed cfg s5 then boost s5 else s5)"
    unfolding upd by (simp only: low if_False top list.case) simp
next
  fix cr s2 s3 s'
  assume a: "yield_outgoing cause s = Inr (cr, s2)
         \<and> sched_queue_select cfg curtime s2 = Inr (None, s3)
         \<and> yield cfg curtime cause s = Inr s'"
  then have "CURTHREAD s' =
     (case None of None \<Rightarrow> if cr then CURTHREAD s else idle_thread s | Some n \<Rightarrow> n)"
    by (intro yield_next_thread [of cause s cr s2 cfg curtime None s3]) simp_all
  then show "CURTHREAD s' = (if cr then CURTHREAD s else idle_thread s)" by simp
  from a yield_outgoing_frame [of cause s cr s2]
  show "cr \<longleftrightarrow> state (tcbs s (CURTHREAD s)) = RUNNING \<or> state (tcbs s (CURTHREAD s)) = READY"
    by blast
qed

theorem select_returns_null_on_empty_queues_witness:
  "TIMEOUT_LIST idle_sched = []
   \<and> drain_timeouts sample_config 100 idle_sched = Inr idle_sched
   \<and> SCHED idle_sched = [[], [], []] \<and> 1 \<le> PRIORITY_LISTS idle_sched
   \<and> INT_MIN < counter_congestion idle_sched \<and> counter_congestion idle_sched < INT_MAX
   \<and> fail_safe idle_sched < INT_MAX
   \<and> sched_queue_select sample_config 100 idle_sched =
        Inr (None, idle_sched\<lparr>counter_congestion := 0, fail_safe := 1\<rparr>)
   \<and> (\<exists>s2 s3 s'. yield_outgoing SCHED_IDLE lone_sched = Inr (True, s2)
         \<and> sched_queue_select sample_config 100 s2 = Inr (None, s3)
         \<and> yield sample_config 100 SCHED_IDLE lone_sched = Inr s'
         \<and> CURTHREAD s' = CURTHREAD lone_sched)"
proof -
  note th = select_returns_null_on_empty_queues
    [where s = idle_sched and ?s1.0 = idle_sched and cfg = sample_config and curtime = 100]
  have e: "TIMEOUT_LIST idle_sched = []"
    by (simp add: idle_sched_def)
  with th have d: "drain_timeouts sample_config 100 idle_sched = Inr idle_sched"
    by blast
  have q: "SCHED idle_sched = [[], [], []]"
    by (simp add: idle_sched_def)
  then have qa: "\<forall>q. q \<in> set (SCHED idle_sched) \<longrightarrow> q = []"
    by simp
  have b: "1 \<le> PRIORITY_LISTS idle_sched" "INT_MIN < counter_congestion idle_sched"
    "counter_congestion idle_sched < INT_MAX" "fail_safe idle_sched < INT_MAX"
    by (simp_all add: idle_sched_def PRIORITY_LISTS_def INT_MIN_def INT_MAX_def)
  from th d qa b have "sched_queue_select sample_config 100 idle_sched =
           Inr (None,
                let s5 = idle_sched\<lparr>counter_congestion := max 0 (counter_congestion idle_sched - 1),
                            fail_safe := fail_safe idle_sched + 1\<rparr>
                in if boost_needed sample_config s5 then boost s5 else s5)"
    by blast
  then have r: "sched_queue_select sample_config 100 idle_sched =
        Inr (None, idle_sched\<lparr>counter_congestion := 0, fail_safe := 1\<rparr>)"
    by (simp add: Let_def boost_needed_def sample_config_def idle_sched_def)
  obtain s2 where o: "yield_outgoing SCHED_IDLE lone_sched = Inr (True, s2)"
    and s2: "s2 = lone_sched\<lparr>tcbs := (tcbs lone_sched)(0 := idle_tcb\<lparr>state := READY\<rparr>)\<rparr>"
    by (simp add: yield_outgoing_def yield_priority_def tcb_upd_def lone_sched_def
          idle_sched_def idle_tcb_def fresh_tcb_def TOP_PRIORITY_def PRIORITY_LISTS_def
          LOWEST_PRIORITY_def Let_def)
  obtain s3 where sl: "sched_queue_select sample_config 100 s2 = Inr (None, s3)"
    and s3: "s3 = s2\<lparr>fail_safe := 1\<rparr>"
    unfolding s2
    by (simp add: sched_queue_select_def select_thread_def drain_timeouts_unfold
          search_lists.simps rlist_pop_front_def update_congestion_def check_lower.simps
          congestion_drop_def is_rlist_empty_def boost_needed_def TOP_PRIORITY_def
          PRIORITY_LISTS_def LOWEST_PRIORITY_def INT_MAX_def INT_MIN_def lone_sched_def
          idle_sched_def sample_config_def Let_def)
  obtain s' where y: "yield sample_config 100 SCHED_IDLE lone_sched = Inr s'"
  proof -
    have "yield sample_config 100 SCHED_IDLE lone_sched =
        (let current = CURTHREAD lone_sched;
             nxt = (case None of None \<Rightarrow> if True then current else idle_thread s3 | Some n \<Rightarrow> n);
             s4 = tcb_upd current (\<lambda>b. b\<lparr>next_tcb := nxt\<rparr>) s3;
             s5 = tcb_upd nxt (\<lambda>b. b\<lparr>prev := current\<rparr>) s4;
             s6 = (if current \<noteq> nxt then s5\<lparr>CURTHREAD := nxt\<rparr> else s5)
         in gain sample_config s6)"
      by (simp only: yield_def o sl sum.case prod.case)
    also have "\<exists>s'. \<dots> = Inr s'"
      unfolding s3 s2
      by (simp add: gain_def tcb_upd_def lone_sched_def idle_sched_def idle_tcb_def
            fresh_tcb_def sample_config_def Let_def)
    finally show ?thesis using that by blast
  qed
  note thy = select_returns_null_on_empty_queues
    [where s = lone_sched and cfg = sample_config and curtime = 100 and cause = SCHED_IDLE]
  from thy o sl y have "CURTHREAD s' = (if True then CURTHREAD lone_sched else idle_thread lone_sched)"
    by blast
  then have "CURTHREAD s' = CURTHREAD lone_sched" by simp
  with o sl y have "\<exists>s2 s3 s'. yield_outgoing SCHED_IDLE lone_sched = Inr (True, s2)
         \<and> sched_queue_select sample_config 100 s2 = Inr (None, s3)
         \<and> yield sample_config 100 SCHED_IDLE lone_sched = Inr s'
         \<and> CURTHREAD s' = CURTHREAD lone_sched"
    by blast
  with e d q b r show ?thesis by (intro conjI)
qed

text \<open>
  C9. The drain of the timeout list does come before the search. But the search loop
  tests \<^verbatim>\<open>sel != NULL\<close> on the result of a pop that is never \<^verbatim>\<open>NULL\<close>, so it ends at the
  top list whether that list is empty or not. With thread 5 due on the timeout list and
  thread 1 ready in the lowest list: the drain queues thread 5 in list 1, the top list is
  empty, and the call returns \<^verbatim>\<open>NULL\<close> with both threads left in their queues.
\<close>

theorem select_stops_at_the_top_list:
  "\<exists>s'. sched_queue_select sample_config 100 sleepy_sched = Inr (None, s')
      \<and> TIMEOUT_LIST s' = [6] \<and> state (tcbs s' 5) = READY \<and> SCHED s' = [[1], [5], []]"
  by (simp add: sched_queue_select_def select_thread_def drain_timeouts_unfold
        sched_make_ready_def linked_def rlist_remove_def tcb_upd_def sched_queue_add_def
        rlist_push_back_def search_lists.simps rlist_pop_front_def update_congestion_def
        check_lower.simps congestion_grow_def congestion_drop_def is_rlist_empty_def
        boost_needed_def TOP_PRIORITY_def PRIORITY_LISTS_def LOWEST_PRIORITY_def
        INT_MAX_def INT_MIN_def sleepy_sched_def idle_sched_def fresh_tcb_def
        sample_config_def Let_def)

text \<open>
  C6. When no thread was popped the congestion counter is meant to go down. The search
  loop leaves \<open>i\<close> at \<^verbatim>\<open>TOP_PRIORITY\<close> also when the top list was empty, so the branch for
  ``no thread found'' is taken only with a single priority list, and the lists below are
  examined instead. With an empty top list, threads waiting in the two lists below and the
  counter at 1: nothing is popped, the call returns \<^verbatim>\<open>NULL\<close>, and the counter is 2.
\<close>

theorem congestion_grows_without_a_pop:
  "\<exists>s'. sched_queue_select sample_config 100 starved_sched = Inr (None, s')
      \<and> SCHED s' = SCHED starved_sched
      \<and> counter_congestion starved_sched = 1 \<and> counter_congestion s' = 2"
  by (simp add: sched_queue_select_def select_thread_def drain_timeouts_unfold
        search_lists.simps rlist_pop_front_def update_congestion_def
        check_lower.simps congestion_grow_def congestion_drop_def is_rlist_empty_def
        boost_needed_def TOP_PRIORITY_def PRIORITY_LISTS_def LOWEST_PRIORITY_def
        INT_MAX_def INT_MIN_def starved_sched_def idle_sched_def
        sample_config_def Let_def)

subsection \<open>The fail-safe counter\<close>

lemma sched_queue_select_fail_safe:
  assumes "sched_queue_select cfg curtime s = Inr (r, s')"
  shows "fail_safe s' = fail_safe s + 1"
proof -
  from sched_queue_select_cases [OF assms] obtain nd s5
    where st: "select_thread cfg curtime s = Inr (Some nd, s5)"
      and s': "s' = (if boost_needed cfg s5 then boost s5 else s5)"
    by blast
  from select_thread_fail_safe [OF st] s' show ?thesis
    by (simp add: boost_other_fields)
qed

lemma gain_fail_safe:
  assumes "gain cfg s = Inr s'"
  shows "fail_safe s' = fail_safe s"
proof -
  let ?cur = "CURTHREAD s"
  let ?prv = "prev (tcbs s ?cur)"
  let ?s1 = "tcb_upd ?cur (\<lambda>b. b\<lparr>state := RUNNING, phase := CTX_DIRTY\<rparr>) s"
  let ?s2 = "tcb_upd ?prv (\<lambda>b. b\<lparr>phase := CTX_CLEAN\<rparr>) ?s1"
  have f: "fail_safe ?s1 = fail_safe s" "fail_safe ?s2 = fail_safe s"
    by (simp_all add: tcb_upd_def)
  show ?thesis
  proof (cases "?cur \<noteq> ?prv")
    case False
    with assms f show ?thesis by (simp add: gain_def Let_def)
  next
    case True
    show ?thesis
    proof (cases "state (tcbs ?s2 ?prv)")
      case READY
      with assms True have "sched_queue_add ?prv ?s2 = Inr s' \<or> s' = ?s2"
        by (simp add: gain_def Let_def split: if_splits)
      with f show ?thesis by (auto dest: sched_queue_add_fields)
    next
      case EXITED
      with assms True f show ?thesis
        by (cases "owner_ptcb (tcbs ?s2 ?prv)")
           (auto simp: gain_def Let_def release_TCB_def)
    next
      case STOPPED
      with assms True f show ?thesis by (simp add: gain_def Let_def)
    next
      case INIT
      with assms True show ?thesis by (simp add: gain_def Let_def)
    next
      case RUNNING
      with assms True show ?thesis by (simp add: gain_def Let_def)
    qed
  qed
qed

lemma yield_outgoing_fail_safe:
  assumes "yield_outgoing cause s = Inr (cr, s2)"
  shows "fail_safe s2 = fail_safe s"
  using assms
  by (cases "state (tcbs (tcb_upd (CURTHREAD s) (yield_priority (TOP_PRIORITY s) cause) s)
                      (CURTHREAD s))")
     (auto simp: yield_outgoing_def Let_def tcb_upd_def)

lemma yield_fail_safe:
  assumes "yield cfg curtime cause s = Inr s'"
  shows "fail_safe s' = fail_safe s + 1"
proof -
  let ?cur = "CURTHREAD s"
  obtain cr s2 where out: "yield_outgoing cause s = Inr (cr, s2)"
  proof (cases "yield_outgoing cause s")
    case (Inl e)
    with assms show ?thesis by (simp add: yield_def)
  next
    case (Inr p)
    then show ?thesis using that by (cases p) simp
  qed
  from assms out obtain sel s3 where sl: "sched_queue_select cfg curtime s2 = Inr (sel, s3)"
    by (auto simp: yield_def Let_def split: sum.splits)
  let ?nxt = "case sel of None \<Rightarrow> if cr then ?cur else idle_thread s3 | Some n \<Rightarrow> n"
  let ?s4 = "tcb_upd ?cur (\<lambda>b. b\<lparr>next_tcb := ?nxt\<rparr>) s3"
  let ?s5 = "tcb_upd ?nxt (\<lambda>b. b\<lparr>prev := ?cur\<rparr>) ?s4"
  let ?s6 = "if ?cur \<noteq> ?nxt then ?s5\<lparr>CURTHREAD := ?nxt\<rparr> else ?s5"
  from assms out sl have g: "gain cfg ?s6 = Inr s'"
    by (simp add: yield_def Let_def)
  have "fail_safe ?s6 = fail_safe s3"
    by (simp add: tcb_upd_def)
  with gain_fail_safe [OF g] sched_queue_select_fail_safe [OF sl]
    yield_outgoing_fail_safe [OF out]
  show ?thesis by simp
qed

lemma sched_register_timeout_fail_safe:
  "fail_safe (sched_register_timeout cfg curtime tcb timeout s) = fail_safe s"
  by (simp add: sched_register_timeout_def Let_def tcb_upd_def)

lemma sleep_releasing_fail_safe:
  assumes "sleep_releasing cfg curtime curtime' st cause timeout s = Inr s'"
  shows "fail_safe s' = fail_safe s + 1"
proof -
  let ?s1 = "tcb_upd (CURTHREAD s) (\<lambda>b. b\<lparr>state := st\<rparr>) s"
  let ?s2 = "if st \<noteq> EXITED
             then sched_register_timeout cfg curtime (CURTHREAD s) timeout ?s1 else ?s1"
  from assms have y: "yield cfg curtime' cause ?s2 = Inr s'"
    by (simp add: sleep_releasing_def Let_def split: if_splits)
  have "fail_safe ?s2 = fail_safe s"
    by (simp add: sched_register_timeout_fail_safe) (simp add: tcb_upd_def)
  with yield_fail_safe [OF y] show ?thesis by simp
qed

lemma wakeup_fail_safe:
  assumes "wakeup cfg tcb s = Inr (r, s')"
  shows "fail_safe s' = fail_safe s"
proof (cases "state (tcbs s tcb) = STOPPED \<or> state (tcbs s tcb) = INIT")
  case True
  with assms have "sched_make_ready cfg tcb s = Inr s'"
    by (auto simp: wakeup_def split: sum.splits)
  from sched_make_ready_counters [OF this] show ?thesis
    by (simp add: same_counters_def)
next
  case False
  with assms show ?thesis by (simp add: wakeup_def)
qed

lemma perform_fail_safe:
  assumes "perform cfg e s = Inr s'"
  shows "fail_safe s' = fail_safe s + (if selecting e then 1 else 0)"
proof (cases e)
  case (Select curtime)
  with assms obtain r where "sched_queue_select cfg curtime s = Inr (r, s')"
    by (auto split: sum.splits)
  from sched_queue_select_fail_safe [OF this] Select show ?thesis by simp
next
  case (Yield curtime cause)
  with assms yield_fail_safe [of cfg curtime cause s s'] show ?thesis by simp
next
  case (Sleep curtime curtime' st cause timeout)
  with assms sleep_releasing_fail_safe [of cfg curtime curtime' st cause timeout s s']
  show ?thesis by simp
next
  case (Wakeup tcb)
  with assms obtain r where "wakeup cfg tcb s = Inr (r, s')"
    by (auto split: sum.splits)
  from wakeup_fail_safe [OF this] Wakeup show ?thesis by simp
next
  case Gain
  with assms gain_fail_safe [of cfg s s'] show ?thesis by simp
next
  case Boost
  with assms show ?thesis by (auto simp: boost_other_fields)
qed

lemma run_fail_safe:
  "run cfg es s = Inr s' \<Longrightarrow> fail_safe s' = fail_safe s + int (selections es)"
proof (induction es arbitrary: s)
  case Nil
  then show ?case by (simp add: selections_def)
next
  case (Cons e es)
  then obtain s1 where p: "perform cfg e s = Inr s1" and r: "run cfg es s1 = Inr s'"
    by (auto split: sum.splits)
  from Cons.IH [OF r] perform_fail_safe [OF p] show ?case
    by (simp add: selections_def)
qed

lemma fired_count:
  "run cfg es s = Inr s' \<Longrightarrow>
   fired cfg es s =
     (if fail_safe s < 500 \<and> 500 \<le> fail_safe s + int (selections es) then 1 else 0)"
proof (induction es arbitrary: s)
  case Nil
  then show ?case by (simp add: selections_def)
next
  case (Cons e es)
  then obtain s1 where p: "perform cfg e s = Inr s1" and r: "run cfg es s1 = Inr s'"
    by (auto split: sum.splits)
  from Cons.IH [OF r] perform_fail_safe [OF p] p show ?case
    by (auto simp: selections_def)
qed

lemma boost_three_empty:
  assumes "SCHED s = [[], [], []]"
  shows "boost s = s\<lparr>counter_congestion := 0\<rparr>"
proof -
  have "boost s = s\<lparr>tcbs := tcbs s, SCHED := SCHED s, counter_congestion := 0\<rparr>"
    by (simp add: boost_eq assms lifted_def raise_priority_Nil numeral_2_eq_2)
  then show ?thesis by simp
qed

lemma idle_yield:
  assumes "f < INT_MAX"
  shows "yield sample_config c SCHED_IDLE (lone_sched\<lparr>fail_safe := f\<rparr>)
           = Inr (lone_sched\<lparr>fail_safe := f + 1\<rparr>)"
proof -
  let ?s = "lone_sched\<lparr>fail_safe := f\<rparr>"
  let ?s2 = "?s\<lparr>tcbs := (tcbs lone_sched)(0 := idle_tcb\<lparr>state := READY\<rparr>)\<rparr>"
  let ?s3 = "?s2\<lparr>fail_safe := f + 1\<rparr>"
  have o: "yield_outgoing SCHED_IDLE ?s = Inr (True, ?s2)"
    by (simp add: yield_outgoing_def yield_priority_def tcb_upd_def lone_sched_def
          idle_sched_def idle_tcb_def fresh_tcb_def TOP_PRIORITY_def PRIORITY_LISTS_def
          LOWEST_PRIORITY_def Let_def)
  have st: "select_thread sample_config c ?s2 = Inr (Some ListHead, ?s3)"
    using assms
    by (simp add: select_thread_def drain_timeouts_unfold
          search_lists.simps rlist_pop_front_def update_congestion_def check_lower.simps
          congestion_drop_def is_rlist_empty_def TOP_PRIORITY_def
          PRIORITY_LISTS_def LOWEST_PRIORITY_def INT_MAX_def INT_MIN_def lone_sched_def
          idle_sched_def Let_def)
  have e: "SCHED ?s3 = [[], [], []]"
    by (simp add: lone_sched_def idle_sched_def)
  have c0: "?s3\<lparr>counter_congestion := 0\<rparr> = ?s3"
    by (simp add: lone_sched_def idle_sched_def)
  have sl: "sched_queue_select sample_config c ?s2 = Inr (None, ?s3)"
    by (simp only: sched_queue_select_def st sum.case prod.case option.case node_tcb.simps
          boost_three_empty [OF e] c0 if_cancel Let_def)
  have "yield sample_config c SCHED_IDLE ?s =
        (let current = CURTHREAD ?s;
             nxt = (case None of None \<Rightarrow> if True then current else idle_thread ?s3 | Some n \<Rightarrow> n);
             s4 = tcb_upd current (\<lambda>b. b\<lparr>next_tcb := nxt\<rparr>) ?s3;
             s5 = tcb_upd nxt (\<lambda>b. b\<lparr>prev := current\<rparr>) s4;
             s6 = (if current \<noteq> nxt then s5\<lparr>CURTHREAD := nxt\<rparr> else s5)
         in gain sample_config s6)"
    by (simp only: yield_def o sl sum.case prod.case)
  also have "\<dots> = Inr (lone_sched\<lparr>fail_safe := f + 1\<rparr>)"
    by (simp add: gain_def tcb_upd_def lone_sched_def idle_sched_def idle_tcb_def
          fresh_tcb_def Let_def fun_eq_iff)
  finally show ?thesis .
qed

lemma idle_run:
  "f + int n < INT_MAX \<Longrightarrow>
   run sample_config (replicate n (Yield c SCHED_IDLE)) (lone_sched\<lparr>fail_safe := f\<rparr>)
     = Inr (lone_sched\<lparr>fail_safe := f + int n\<rparr>)"
proof (induction n arbitrary: f)
  case 0
  show ?case by simp
next
  case (Suc n)
  from Suc.prems have f: "f < INT_MAX" and g: "(f + 1) + int n < INT_MAX"
    by simp_all
  have "run sample_config (replicate (Suc n) (Yield c SCHED_IDLE)) (lone_sched\<lparr>fail_safe := f\<rparr>)
      = run sample_config (replicate n (Yield c SCHED_IDLE)) (lone_sched\<lparr>fail_safe := f + 1\<rparr>)"
    by (simp add: idle_yield [OF f])
  also have "\<dots> = Inr (lone_sched\<lparr>fail_safe := (f + 1) + int n\<rparr>)"
    by (rule Suc.IH [OF g])
  also have "(f + 1) + int n = f + int (Suc n)"
    by simp
  finally show ?case .
qed

text \<open>
  C5. A call of \<^verbatim>\<open>sched_queue_select\<close> returns whenever the drain of the timeout list
  does, there is at least one priority list and the two counters are inside the range of
  \<^verbatim>\<open>int\<close>; so it does on a core that idles. A call that returns has raised \<^verbatim>\<open>fail_safe\<close>
  by exactly one, and has run \<^verbatim>\<open>boost\<close> on the data it had after the increment exactly
  when the congestion bound is reached or \<^verbatim>\<open>fail_safe\<close> is 500 there; \<^verbatim>\<open>boost\<close> does not
  write \<^verbatim>\<open>fail_safe\<close>. So in every execution that does not fail the counter has grown by
  the number of selections, and an execution that starts with \<^verbatim>\<open>fail_safe == 0\<close> meets the
  test \<^verbatim>\<open>fail_safe == 500\<close> once when it has at least 500 selections (at the 500th, whatever
  the congestion is) and never otherwise.
\<close>

theorem fail_safe_fires_once:
  "(drain_timeouts cfg curtime s = Inr s1 \<and> 1 \<le> PRIORITY_LISTS s1
      \<and> INT_MIN < counter_congestion s \<and> counter_congestion s < INT_MAX
      \<and> fail_safe s < INT_MAX \<longrightarrow>
       (\<exists>r s5. sched_queue_select cfg curtime s =
                 Inr (r, if MAX_CONGESTION cfg \<le> counter_congestion s5 \<or> fail_safe s5 = 500
                         then boost s5 else s5)
          \<and> fail_safe s5 = fail_safe s + 1))
   \<and> (\<forall>r s'. sched_queue_select cfg curtime s = Inr (r, s') \<longrightarrow>
       (\<exists>sel s5. select_thread cfg curtime s = Inr (sel, s5)
          \<and> fail_safe s5 = fail_safe s + 1
          \<and> s' = (if MAX_CONGESTION cfg \<le> counter_congestion s5 \<or> fail_safe s5 = 500
                  then boost s5 else s5)
          \<and> fail_safe s' = fail_safe s5))
   \<and> fail_safe (boost s) = fail_safe s
   \<and> (\<forall>s'. run cfg es s = Inr s' \<longrightarrow> fail_safe s' = fail_safe s + int (selections es))
   \<and> (\<forall>s'. run cfg es s = Inr s' \<and> fail_safe s = 0 \<longrightarrow>
          fired cfg es s = (if 500 \<le> selections es then 1 else 0))"
proof (intro conjI allI impI)
  assume a: "drain_timeouts cfg curtime s = Inr s1 \<and> 1 \<le> PRIORITY_LISTS s1
      \<and> INT_MIN < counter_congestion s \<and> counter_congestion s < INT_MAX
      \<and> fail_safe s < INT_MAX"
  then have d: "drain_timeouts cfg curtime s = Inr s1" and p: "1 \<le> PRIORITY_LISTS s1"
    and c1: "INT_MIN < counter_congestion s" and c2: "counter_congestion s < INT_MAX"
    and f: "fail_safe s < INT_MAX"
    by simp_all
  let ?s5 = "s1\<lparr>SCHED := (SCHED s1)[nat (TOP_PRIORITY s1) := tl (SCHED s1 ! nat (TOP_PRIORITY s1))],
               counter_congestion := (if \<exists>q. 0 \<le> q \<and> q < TOP_PRIORITY s1 \<and> SCHED s1 ! nat q \<noteq> []
                    then max 0 (counter_congestion s + 1) else max 0 (counter_congestion s - 1)),
               fail_safe := fail_safe s + 1\<rparr>"
  let ?r = "case SCHED s1 ! nat (TOP_PRIORITY s1) of [] \<Rightarrow> None | n # ns \<Rightarrow> Some n"
  have "sched_queue_select cfg curtime s =
          Inr (?r, if MAX_CONGESTION cfg \<le> counter_congestion ?s5 \<or> fail_safe ?s5 = 500
                   then boost ?s5 else ?s5)"
    by (simp only: sched_queue_select_eq [OF d p c1 c2 f] Let_def boost_needed_def)
  moreover have "fail_safe ?s5 = fail_safe s + 1"
    by simp
  ultimately show "\<exists>r s5. sched_queue_select cfg curtime s =
                 Inr (r, if MAX_CONGESTION cfg \<le> counter_congestion s5 \<or> fail_safe s5 = 500
                         then boost s5 else s5)
          \<and> fail_safe s5 = fail_safe s + 1"
    by (intro exI conjI)
next
  fix r s'
  assume a: "sched_queue_select cfg curtime s = Inr (r, s')"
  from sched_queue_select_cases [OF a] obtain nd s5
    where st: "select_thread cfg curtime s = Inr (Some nd, s5)"
      and s': "s' = (if boost_needed cfg s5 then boost s5 else s5)"
    by blast
  have "fail_safe s' = fail_safe s5"
    using s' by (simp add: boost_other_fields)
  with st s' select_thread_fail_safe [OF st]
  have "select_thread cfg curtime s = Inr (Some nd, s5)
          \<and> fail_safe s5 = fail_safe s + 1
          \<and> s' = (if MAX_CONGESTION cfg \<le> counter_congestion s5 \<or> fail_safe s5 = 500
                  then boost s5 else s5)
          \<and> fail_safe s' = fail_safe s5"
    by (simp add: boost_needed_def)
  then show "\<exists>sel s5. select_thread cfg curtime s = Inr (sel, s5)
          \<and> fail_safe s5 = fail_safe s + 1
          \<and> s' = (if MAX_CONGESTION cfg \<le> counter_congestion s5 \<or> fail_safe s5 = 500
                  then boost s5 else s5)
          \<and> fail_safe s' = fail_safe s5"
    by blast
next
  show "fail_safe (boost s) = fail_safe s"
    by (simp add: boost_other_fields)
next
  fix s'
  assume "run cfg es s = Inr s'"
  then show "fail_safe s' = fail_safe s + int (selections es)"
    by (rule run_fail_safe)
next
  fix s'
  assume "run cfg es s = Inr s' \<and> fail_safe s = 0"
  then show "fired cfg es s = (if 500 \<le> selections es then 1 else 0)"
    using fired_count [of cfg es s s'] by simp
qed

theorem fail_safe_fires_once_witness:
  "drain_timeouts sample_config 100 lone_sched = Inr lone_sched
   \<and> 1 \<le> PRIORITY_LISTS lone_sched
   \<and> INT_MIN < counter_congestion lone_sched \<and> counter_congestion lone_sched < INT_MAX
   \<and> fail_safe lone_sched < INT_MAX
   \<and> (\<exists>r s'. sched_queue_select sample_config 100 lone_sched = Inr (r, s') \<and> fail_safe s' = 1)
   \<and> (\<exists>X s5. sched_queue_select sample_config 100 (busy_sched\<lparr>fail_safe := 499\<rparr>)
              = Inr (Some 3, X)
        \<and> fail_safe X = 500 \<and> X = boost s5 \<and> SCHED X = [[], [1, 4], [2]])
   \<and> fail_safe lone_sched = 0
   \<and> selections (replicate 500 (Yield 100 SCHED_IDLE)) = 500
   \<and> (\<exists>Y. run sample_config (replicate 500 (Yield 100 SCHED_IDLE)) lone_sched = Inr Y
         \<and> fail_safe Y = 500)
   \<and> fired sample_config (replicate 500 (Yield 100 SCHED_IDLE)) lone_sched = 1
   \<and> (\<exists>Z. run sample_config (replicate 499 (Yield 100 SCHED_IDLE)) lone_sched = Inr Z)
   \<and> fired sample_config (replicate 499 (Yield 100 SCHED_IDLE)) lone_sched = 0"
proof -
  have d: "drain_timeouts sample_config 100 lone_sched = Inr lone_sched"
    by (simp add: drain_timeouts_unfold lone_sched_def idle_sched_def)
  have b: "1 \<le> PRIORITY_LISTS lone_sched" "INT_MIN < counter_congestion lone_sched"
    "counter_congestion lone_sched < INT_MAX" "fail_safe lone_sched < INT_MAX"
    by (simp_all add: lone_sched_def idle_sched_def PRIORITY_LISTS_def INT_MIN_def INT_MAX_def)
  have z: "fail_safe lone_sched = 0"
    by (simp add: lone_sched_def idle_sched_def)
  note th0 = fail_safe_fires_once [where cfg = sample_config and curtime = 100
      and s = lone_sched and ?s1.0 = lone_sched]
  from th0 d b obtain r s5 where
    sl: "sched_queue_select sample_config 100 lone_sched =
           Inr (r, if MAX_CONGESTION sample_config \<le> counter_congestion s5 \<or> fail_safe s5 = 500
                   then boost s5 else s5)"
    and f5: "fail_safe s5 = fail_safe lone_sched + 1"
    by blast
  have "fail_safe (if MAX_CONGESTION sample_config \<le> counter_congestion s5 \<or> fail_safe s5 = 500
                   then boost s5 else s5) = 1"
    using f5 z by (simp add: boost_other_fields)
  with sl have zero: "\<exists>r s'. sched_queue_select sample_config 100 lone_sched = Inr (r, s')
      \<and> fail_safe s' = 1"
    by blast
  have ev: "\<And>f. select_thread sample_config 100 (busy_sched\<lparr>fail_safe := f\<rparr>) =
      (if f = INT_MAX then Inl Overflow
       else Inr (Some (TcbNode 3),
                 busy_sched\<lparr>SCHED := [[1, 4], [2], []], counter_congestion := 1,
                            fail_safe := f + 1\<rparr>))"
    by (simp add: select_thread_def drain_timeouts_unfold search_lists.simps
          rlist_pop_front_def update_congestion_def check_lower.simps congestion_grow_def
          is_rlist_empty_def TOP_PRIORITY_def PRIORITY_LISTS_def LOWEST_PRIORITY_def
          INT_MAX_def busy_sched_def idle_sched_def)
  have bs: "\<And>f. SCHED (boost (busy_sched\<lparr>SCHED := [[1, 4], [2], []], counter_congestion := 1,
                                    fail_safe := f\<rparr>)) = [[], [1, 4], [2]]"
    by (simp add: boost_eq lifted_def)
  obtain X where x: "sched_queue_select sample_config 100 (busy_sched\<lparr>fail_safe := 499\<rparr>)
              = Inr (Some 3, X)"
    by (simp add: sched_queue_select_def ev INT_MAX_def)
  note th = fail_safe_fires_once [of sample_config 100 "busy_sched\<lparr>fail_safe := 499\<rparr>"]
  from th x obtain sel s6 where
    st: "select_thread sample_config 100 (busy_sched\<lparr>fail_safe := 499\<rparr>) = Inr (sel, s6)"
    and f6: "fail_safe s6 = fail_safe (busy_sched\<lparr>fail_safe := 499\<rparr>) + 1"
    and xs: "X = (if MAX_CONGESTION sample_config \<le> counter_congestion s6 \<or> fail_safe s6 = 500
                  then boost s6 else s6)"
    and fx: "fail_safe X = fail_safe s6"
    by blast
  from f6 have f500: "fail_safe s6 = 500" by simp
  with xs have xb: "X = boost s6" by simp
  from st have "s6 = busy_sched\<lparr>SCHED := [[1, 4], [2], []], counter_congestion := 1,
                                    fail_safe := 500\<rparr>"
    by (simp add: ev INT_MAX_def)
  with xb bs have sx: "SCHED X = [[], [1, 4], [2]]" by simp
  from fx f500 have fX: "fail_safe X = 500" by simp
  from x fX xb sx have "sched_queue_select sample_config 100
              (busy_sched\<lparr>fail_safe := 499\<rparr>) = Inr (Some 3, X)
        \<and> fail_safe X = 500 \<and> X = boost s6 \<and> SCHED X = [[], [1, 4], [2]]"
    by (intro conjI)
  then have first: "\<exists>X s5. sched_queue_select sample_config 100
              (busy_sched\<lparr>fail_safe := 499\<rparr>) = Inr (Some 3, X)
        \<and> fail_safe X = 500 \<and> X = boost s5 \<and> SCHED X = [[], [1, 4], [2]]"
    by (intro exI)
  have l0: "lone_sched\<lparr>fail_safe := 0\<rparr> = lone_sched"
    by (simp add: lone_sched_def idle_sched_def)
  have n: "\<And>k. selections (replicate k (Yield 100 SCHED_IDLE)) = k"
    by (simp add: selections_def)
  have rn: "\<And>k. int k < INT_MAX \<Longrightarrow>
      run sample_config (replicate k (Yield 100 SCHED_IDLE)) lone_sched
        = Inr (lone_sched\<lparr>fail_safe := int k\<rparr>)"
    using idle_run [of 0 _ 100] by (simp add: l0)
  have y: "run sample_config (replicate 500 (Yield 100 SCHED_IDLE)) lone_sched
        = Inr (lone_sched\<lparr>fail_safe := 500\<rparr>)"
    using rn [of 500] by (simp add: INT_MAX_def)
  have y9: "run sample_config (replicate 499 (Yield 100 SCHED_IDLE)) lone_sched
        = Inr (lone_sched\<lparr>fail_safe := 499\<rparr>)"
    using rn [of 499] by (simp add: INT_MAX_def)
  note th2 = fail_safe_fires_once [where cfg = sample_config and s = lone_sched
      and es = "replicate 500 (Yield 100 SCHED_IDLE)"]
  from th2 y have "fail_safe (lone_sched\<lparr>fail_safe := 500\<rparr>)
      = fail_safe lone_sched + int (selections (replicate 500 (Yield 100 SCHED_IDLE)))"
    by blast
  then have fy: "fail_safe (lone_sched\<lparr>fail_safe := 500\<rparr>) = 500"
    by (simp add: z n)
  from th2 y z have "fired sample_config (replicate 500 (Yield 100 SCHED_IDLE)) lone_sched =
      (if 500 \<le> selections (replicate 500 (Yield 100 SCHED_IDLE)) then 1 else 0)"
    by blast
  then have fz: "fired sample_config (replicate 500 (Yield 100 SCHED_IDLE)) lone_sched = 1"
    by (simp add: n)
  note th3 = fail_safe_fires_once [where cfg = sample_config and s = lone_sched
      and es = "replicate 499 (Yield 100 SCHED_IDLE)"]
  from th3 y9 z have "fired sample_config (replicate 499 (Yield 100 SCHED_IDLE)) lone_sched =
      (if 500 \<le> selections (replicate 499 (Yield 100 SCHED_IDLE)) then 1 else 0)"
    by blast
  then have f9: "fired sample_config (replicate 499 (Yield 100 SCHED_IDLE)) lone_sched = 0"
    by (simp add: n)
  from y fy have ey: "\<exists>Y. run sample_config (replicate 500 (Yield 100 SCHED_IDLE)) lone_sched
      = Inr Y \<and> fail_safe Y = 500"
    by blast
  from y9 have e9: "\<exists>Z. run sample_config (replicate 499 (Yield 100 SCHED_IDLE)) lone_sched
      = Inr Z"
    by blast
  from d b zero first z n [of 500] ey fz e9 f9 show ?thesis
    by (intro conjI)
qed

subsection \<open>The mutex fields of a thread\<close>

lemma tcb_upd_mutex_part:
  "(\<And>b. mutex_part (f b) = mutex_part b) \<Longrightarrow>
   mutex_part (tcbs (tcb_upd u f s) t) = mutex_part (tcbs s t)"
  by (simp add: tcb_upd_def)

lemma concat_update_subset: "set (concat (l[i := x])) \<subseteq> set x \<union> set (concat l)"
  using set_update_subset_insert [of l i x] by auto

lemma sched_queue_add_members:
  assumes "sched_queue_add tcb s = Inr s'"
  shows "set (concat (SCHED s')) \<subseteq> insert tcb (set (concat (SCHED s)))"
proof -
  let ?p = "nat (priority (tcbs s tcb))"
  from assms have r: "?p < length (SCHED s)"
    and e: "SCHED s' = (SCHED s)[?p := SCHED s ! ?p @ [tcb]]"
    by (auto simp: sched_queue_add_def Let_def rlist_push_back_def PRIORITY_LISTS_def
             split: if_splits)
  from r have "set (SCHED s ! ?p) \<subseteq> set (concat (SCHED s))"
    by (auto intro: nth_mem)
  with concat_update_subset [of "SCHED s" ?p "SCHED s ! ?p @ [tcb]"] show ?thesis
    unfolding e by auto
qed

lemma sched_make_ready_tcb:
  assumes "sched_make_ready cfg tcb s = Inr s'"
  shows "mutex_part (tcbs s' t) = mutex_part (tcbs s t)
     \<and> priority (tcbs s' t) = priority (tcbs s t) \<and> phase (tcbs s' t) = phase (tcbs s t)
     \<and> (off_queue t s \<longrightarrow> off_queue t s')"
proof -
  define s2 where "s2 = tcb_upd tcb (\<lambda>b. b\<lparr>state := READY\<rparr>)
     (if wakeup_time (tcbs s tcb) \<noteq> NO_TIMEOUT cfg
      then tcb_upd tcb (\<lambda>b. b\<lparr>wakeup_time := NO_TIMEOUT cfg\<rparr>) (rlist_remove tcb s)
      else s)"
  have m2: "mutex_part (tcbs s2 t) = mutex_part (tcbs s t)"
    and p2: "priority (tcbs s2 t) = priority (tcbs s t)"
    and h2: "phase (tcbs s2 t) = phase (tcbs s t)"
    by (simp_all add: s2_def tcb_upd_def rlist_remove_def mutex_part_def)
  have q2: "set (concat (SCHED s2)) \<subseteq> set (concat (SCHED s))"
    by (auto simp: s2_def tcb_upd_def rlist_remove_def)
  from sched_make_ready_cases [OF assms]
  have c: "if phase (tcbs s tcb) = CTX_CLEAN then sched_queue_add tcb s2 = Inr s' else s' = s2"
    by (simp add: Let_def s2_def)
  have o2: "off_queue t s2" if o: "off_queue t s"
  proof -
    from o have a: "phase (tcbs s t) = CTX_DIRTY" and b: "t \<notin> set (concat (SCHED s))"
      by (simp_all add: off_queue_def)
    from q2 b have "t \<notin> set (concat (SCHED s2))" by blast
    with a h2 show ?thesis by (simp add: off_queue_def)
  qed
  show ?thesis
  proof (cases "phase (tcbs s tcb) = CTX_CLEAN")
    case False
    with c have e: "s' = s2" by simp
    from m2 p2 h2 o2 show ?thesis unfolding e by blast
  next
    case True
    with c have a: "sched_queue_add tcb s2 = Inr s'" by simp
    from sched_queue_add_fields [OF a] have tc: "tcbs s' = tcbs s2" by simp
    note q = sched_queue_add_members [OF a]
    have "off_queue t s'" if o: "off_queue t s"
    proof -
      from o True have ne: "t \<noteq> tcb" by (auto simp: off_queue_def)
      from o2 [OF o] have a2: "phase (tcbs s2 t) = CTX_DIRTY"
        and b2: "t \<notin> set (concat (SCHED s2))"
        by (simp_all add: off_queue_def)
      from q b2 ne have "t \<notin> set (concat (SCHED s'))" by blast
      with a2 tc show ?thesis by (simp add: off_queue_def)
    qed
    with m2 p2 h2 tc show ?thesis by simp
  qed
qed

lemma drain_timeouts_tcb:
  "drain_timeouts cfg curtime s = Inr s' \<Longrightarrow>
     mutex_part (tcbs s' t) = mutex_part (tcbs s t)
     \<and> priority (tcbs s' t) = priority (tcbs s t) \<and> phase (tcbs s' t) = phase (tcbs s t)
     \<and> (off_queue t s \<longrightarrow> off_queue t s')"
proof (induction cfg curtime s rule: drain_timeouts.induct)
  case (1 cfg curtime s)
  show ?case
  proof (cases "TIMEOUT_LIST s")
    case Nil
    with "1.prems" show ?thesis by (simp add: drain_timeouts_unfold)
  next
    case (Cons tcb ns)
    show ?thesis
    proof (cases "curtime < wakeup_time (tcbs s tcb)")
      case True
      with Cons "1.prems" show ?thesis by (simp add: drain_timeouts_unfold)
    next
      case False
      with Cons "1.prems" obtain s1 where m: "sched_make_ready cfg tcb s = Inr s1"
        and d: "drain_timeouts cfg curtime s1 = Inr s'"
        by (auto simp: drain_timeouts_unfold split: sum.splits)
      have ne: "\<not> is_rlist_empty (TIMEOUT_LIST s)"
        using Cons by (simp add: is_rlist_empty_def)
      have ng: "\<not> curtime < wakeup_time (tcbs s tcb)" by (rule False)
      have ih: "mutex_part (tcbs s' t) = mutex_part (tcbs s1 t)
         \<and> priority (tcbs s' t) = priority (tcbs s1 t) \<and> phase (tcbs s' t) = phase (tcbs s1 t)
         \<and> (off_queue t s1 \<longrightarrow> off_queue t s')"
        by (rule "1.IH" [OF ne Cons ng m d])
      from sched_make_ready_tcb [OF m, of t] ih show ?thesis by simp
    qed
  qed
qed

lemma search_lists_members:
  assumes "search_lists i s = (j, sel, s')"
  shows "set (concat (SCHED s')) \<subseteq> set (concat (SCHED s))"
proof (cases "0 \<le> i")
  case False
  with assms show ?thesis by (simp add: search_lists_stop)
next
  case True
  from assms have "snd (snd (search_lists i s)) = s'" by simp
  then have "s\<lparr>SCHED := (SCHED s)[nat i := tl (SCHED s ! nat i)]\<rparr> = s'"
    by (simp only: search_lists_top [OF True] snd_conv)
  then have e: "SCHED s' = (SCHED s)[nat i := tl (SCHED s ! nat i)]"
    by auto
  show ?thesis
  proof (cases "nat i < length (SCHED s)")
    case False
    then show ?thesis unfolding e by (simp add: list_update_beyond not_less)
  next
    case True
    then have "set (SCHED s ! nat i) \<subseteq> set (concat (SCHED s))"
      by (auto intro: nth_mem)
    moreover have "set (tl (SCHED s ! nat i)) \<subseteq> set (SCHED s ! nat i)"
      by (cases "SCHED s ! nat i") auto
    ultimately show ?thesis
      using concat_update_subset [of "SCHED s" "nat i" "tl (SCHED s ! nat i)"]
      unfolding e by blast
  qed
qed

lemma boost_tcb:
  "mutex_part (tcbs (boost s) t) = mutex_part (tcbs s t)
   \<and> phase (tcbs (boost s) t) = phase (tcbs s t)
   \<and> (t \<notin> set (concat (SCHED s)) \<longrightarrow> priority (tcbs (boost s) t) = priority (tcbs s t))"
proof (cases "2 \<le> length (SCHED s)")
  case False
  then show ?thesis by (simp add: boost_single)
next
  case True
  have "set (concat (rev (butlast (SCHED s)))) \<subseteq> set (concat (SCHED s))"
    by (auto dest: in_set_butlastD)
  then have "t \<notin> set (concat (SCHED s)) \<longrightarrow> count_list (concat (rev (butlast (SCHED s)))) t = 0"
    by (auto simp: count_list_0_iff)
  then show ?thesis
    by (simp add: boost_eq [OF True] raise_priority_def mutex_part_def)
qed

lemma sched_queue_select_has_lists:
  assumes "sched_queue_select cfg curtime s = Inr (r, s')"
  shows "1 \<le> PRIORITY_LISTS s"
proof -
  from sched_queue_select_cases [OF assms] obtain nd s5
    where st: "select_thread cfg curtime s = Inr (Some nd, s5)"
    by blast
  from st obtain s1 where d: "drain_timeouts cfg curtime s = Inr s1"
    by (auto simp: select_thread_def split: sum.splits)
  obtain i sl s2 where sr: "search_lists (TOP_PRIORITY s1) s1 = (i, sl, s2)"
    by (metis prod_cases3)
  from st d sr have "sl = Some nd"
    by (auto simp: select_thread_def split: sum.splits if_splits)
  with sr have "0 \<le> TOP_PRIORITY s1"
    by (cases "0 \<le> TOP_PRIORITY s1") (simp_all add: search_lists_stop)
  moreover from drain_timeouts_counters [OF d] have "length (SCHED s1) = length (SCHED s)"
    by (simp add: same_counters_def)
  ultimately show ?thesis
    by (simp add: TOP_PRIORITY_def PRIORITY_LISTS_def Suc_le_eq)
qed

lemma sched_queue_select_tcb:
  assumes "sched_queue_select cfg curtime s = Inr (r, s')"
  shows "mutex_part (tcbs s' t) = mutex_part (tcbs s t)
     \<and> (off_queue t s \<longrightarrow> priority (tcbs s' t) = priority (tcbs s t))"
proof -
  from sched_queue_select_cases [OF assms] obtain nd s5
    where st: "select_thread cfg curtime s = Inr (Some nd, s5)"
      and s': "s' = (if boost_needed cfg s5 then boost s5 else s5)"
    by blast
  from st obtain s1 where d: "drain_timeouts cfg curtime s = Inr s1"
    by (auto simp: select_thread_def split: sum.splits)
  obtain i sl s2 where sr: "search_lists (TOP_PRIORITY s1) s1 = (i, sl, s2)"
    by (metis prod_cases3)
  from st d sr obtain s3 where u: "update_congestion i s2 = Inr s3"
    and r: "s5 = s3\<lparr>fail_safe := fail_safe s3 + 1\<rparr>"
    by (auto simp: select_thread_def split: sum.splits if_splits)
  from search_lists_counters [OF sr] have t2: "tcbs s2 = tcbs s1" by simp
  from update_congestion_fields [OF u] have t3: "tcbs s3 = tcbs s2" "SCHED s3 = SCHED s2"
    by simp_all
  from r t2 t3 have t5: "tcbs s5 = tcbs s1" "SCHED s5 = SCHED s2" by simp_all
  note q5 = search_lists_members [OF sr]
  note dr = drain_timeouts_tcb [OF d, of t]
  have m: "mutex_part (tcbs s' t) = mutex_part (tcbs s5 t)"
    unfolding s' by (simp add: boost_tcb)
  have p: "priority (tcbs s' t) = priority (tcbs s t)" if o: "off_queue t s"
  proof -
    from dr o have "off_queue t s1" by blast
    then have "t \<notin> set (concat (SCHED s1))" by (simp add: off_queue_def)
    with q5 have "t \<notin> set (concat (SCHED s5))" unfolding t5 by blast
    then have "priority (tcbs s' t) = priority (tcbs s5 t)"
      unfolding s' by (simp add: boost_tcb)
    with dr t5 show ?thesis by simp
  qed
  from m dr t5 p show ?thesis by simp
qed

lemma gain_tcb:
  assumes "gain cfg s = Inr s'"
  shows "mutex_part (tcbs s' t) = mutex_part (tcbs s t)
     \<and> priority (tcbs s' t) = priority (tcbs s t)"
proof -
  let ?cur = "CURTHREAD s"
  let ?prv = "prev (tcbs s ?cur)"
  define s1 where "s1 = tcb_upd ?cur (\<lambda>b. b\<lparr>state := RUNNING, phase := CTX_DIRTY\<rparr>) s"
  define s2 where "s2 = tcb_upd ?prv (\<lambda>b. b\<lparr>phase := CTX_CLEAN\<rparr>) s1"
  have f1: "mutex_part (tcbs s1 t) = mutex_part (tcbs s t)
     \<and> priority (tcbs s1 t) = priority (tcbs s t)"
    by (simp add: s1_def tcb_upd_def mutex_part_def)
  have f2: "mutex_part (tcbs s2 t) = mutex_part (tcbs s t)
     \<and> priority (tcbs s2 t) = priority (tcbs s t)"
    by (simp add: s2_def s1_def tcb_upd_def mutex_part_def)
  show ?thesis
  proof (cases "?cur \<noteq> ?prv")
    case False
    with assms have "s' = s1" by (simp add: gain_def Let_def s1_def)
    with f1 show ?thesis by simp
  next
    case True
    show ?thesis
    proof (cases "state (tcbs s2 ?prv)")
      case READY
      with assms True have "sched_queue_add ?prv s2 = Inr s' \<or> s' = s2"
        by (simp add: gain_def Let_def s1_def s2_def split: if_splits)
      then have "tcbs s' = tcbs s2" by (auto dest: sched_queue_add_fields)
      with f2 show ?thesis by simp
    next
      case EXITED
      with assms True have "tcbs s' = tcbs s2"
        by (cases "owner_ptcb (tcbs s2 ?prv)")
           (auto simp: gain_def Let_def release_TCB_def s1_def s2_def)
      with f2 show ?thesis by simp
    next
      case STOPPED
      with assms True have "s' = s2" by (simp add: gain_def Let_def s1_def s2_def)
      with f2 show ?thesis by simp
    next
      case INIT
      with assms True show ?thesis by (simp add: gain_def Let_def s1_def s2_def)
    next
      case RUNNING
      with assms True show ?thesis by (simp add: gain_def Let_def s1_def s2_def)
    qed
  qed
qed

lemma yield_priority_mutex_part:
  "mutex_part (yield_priority tp c b) =
     (if c = SCHED_MUTEX then (1, if mutex_flag b = 0 then priority b else prev_queue b)
      else (if mutex_flag b = 1 then 0 else mutex_flag b, prev_queue b))"
  by (cases c) (simp_all add: yield_priority_def Let_def mutex_part_def)

lemma yield_priority_demotes:
  "LOWEST_PRIORITY \<le> tp \<Longrightarrow> priority (yield_priority tp SCHED_MUTEX b) = LOWEST_PRIORITY"
  by (simp add: yield_priority_def Let_def)

lemma yield_priority_restores:
  "c \<noteq> SCHED_MUTEX \<Longrightarrow> mutex_flag b = 1 \<Longrightarrow> priority (yield_priority tp c b) = prev_queue b"
  by (cases c) (simp_all add: yield_priority_def Let_def)

lemma yield_priority_phase: "phase (yield_priority tp c b) = phase b"
  by (cases c) (simp_all add: yield_priority_def Let_def)

lemma yield_outgoing_tcb:
  assumes "yield_outgoing cause s = Inr (cr, s2)"
  shows "SCHED s2 = SCHED s
     \<and> mutex_part (tcbs s2 t) =
         (if CURTHREAD s = t then mutex_part (yield_priority (TOP_PRIORITY s) cause (tcbs s t))
          else mutex_part (tcbs s t))
     \<and> priority (tcbs s2 t) =
         (if CURTHREAD s = t then priority (yield_priority (TOP_PRIORITY s) cause (tcbs s t))
          else priority (tcbs s t))
     \<and> phase (tcbs s2 t) = phase (tcbs s t)"
proof -
  define s1 where "s1 = tcb_upd (CURTHREAD s) (yield_priority (TOP_PRIORITY s) cause) s"
  have f1: "SCHED s1 = SCHED s
     \<and> mutex_part (tcbs s1 t) =
         (if CURTHREAD s = t then mutex_part (yield_priority (TOP_PRIORITY s) cause (tcbs s t))
          else mutex_part (tcbs s t))
     \<and> priority (tcbs s1 t) =
         (if CURTHREAD s = t then priority (yield_priority (TOP_PRIORITY s) cause (tcbs s t))
          else priority (tcbs s t))
     \<and> phase (tcbs s1 t) = phase (tcbs s t)"
    by (simp add: s1_def tcb_upd_def yield_priority_phase)
  from assms have "s2 = s1 \<or> s2 = tcb_upd (CURTHREAD s) (\<lambda>b. b\<lparr>state := READY\<rparr>) s1"
    unfolding yield_outgoing_def Let_def s1_def [symmetric]
    by (cases "state (tcbs s1 (CURTHREAD s))") auto
  then show ?thesis
  proof
    assume "s2 = s1"
    with f1 show ?thesis by simp
  next
    assume e: "s2 = tcb_upd (CURTHREAD s) (\<lambda>b. b\<lparr>state := READY\<rparr>) s1"
    have "SCHED s2 = SCHED s1 \<and> mutex_part (tcbs s2 t) = mutex_part (tcbs s1 t)
       \<and> priority (tcbs s2 t) = priority (tcbs s1 t) \<and> phase (tcbs s2 t) = phase (tcbs s1 t)"
      unfolding e by (simp add: tcb_upd_def mutex_part_def)
    with f1 show ?thesis by simp
  qed
qed

lemma yield_tcb:
  assumes "yield cfg curtime cause s = Inr s'"
  shows "mutex_part (tcbs s' t) =
         (if CURTHREAD s = t then mutex_part (yield_priority (TOP_PRIORITY s) cause (tcbs s t))
          else mutex_part (tcbs s t))
     \<and> (CURTHREAD s = t \<and> off_queue t s \<longrightarrow>
          priority (tcbs s' t) = priority (yield_priority (TOP_PRIORITY s) cause (tcbs s t)))
     \<and> 1 \<le> PRIORITY_LISTS s"
proof -
  let ?cur = "CURTHREAD s"
  obtain cr s2 where out: "yield_outgoing cause s = Inr (cr, s2)"
  proof (cases "yield_outgoing cause s")
    case (Inl e)
    with assms show ?thesis by (simp add: yield_def)
  next
    case (Inr p)
    then show ?thesis using that by (cases p) simp
  qed
  from assms out obtain sel s3 where sl: "sched_queue_select cfg curtime s2 = Inr (sel, s3)"
    by (auto simp: yield_def Let_def split: sum.splits)
  let ?nxt = "case sel of None \<Rightarrow> if cr then ?cur else idle_thread s3 | Some n \<Rightarrow> n"
  let ?s4 = "tcb_upd ?cur (\<lambda>b. b\<lparr>next_tcb := ?nxt\<rparr>) s3"
  let ?s5 = "tcb_upd ?nxt (\<lambda>b. b\<lparr>prev := ?cur\<rparr>) ?s4"
  let ?s6 = "if ?cur \<noteq> ?nxt then ?s5\<lparr>CURTHREAD := ?nxt\<rparr> else ?s5"
  define s6 where "s6 = ?s6"
  from assms out sl have "gain cfg ?s6 = Inr s'"
    by (simp add: yield_def Let_def)
  then have g: "gain cfg s6 = Inr s'"
    by (simp only: s6_def)
  have f6: "mutex_part (tcbs s6 t) = mutex_part (tcbs s3 t)
     \<and> priority (tcbs s6 t) = priority (tcbs s3 t)"
    by (simp add: s6_def tcb_upd_def mutex_part_def)
  note o = yield_outgoing_tcb [OF out, of t]
  note q = sched_queue_select_tcb [OF sl, of t]
  note gn = gain_tcb [OF g, of t]
  from o q gn f6 have m: "mutex_part (tcbs s' t) =
         (if CURTHREAD s = t then mutex_part (yield_priority (TOP_PRIORITY s) cause (tcbs s t))
          else mutex_part (tcbs s t))"
    by simp
  have p: "priority (tcbs s' t) = priority (yield_priority (TOP_PRIORITY s) cause (tcbs s t))"
    if c: "CURTHREAD s = t" and oq: "off_queue t s"
  proof -
    from oq o have "off_queue t s2" by (simp add: off_queue_def)
    with q have "priority (tcbs s3 t) = priority (tcbs s2 t)" by blast
    with o gn f6 c show ?thesis by simp
  qed
  have "length (SCHED s2) = length (SCHED s)" using o by simp
  with sched_queue_select_has_lists [OF sl] have l: "1 \<le> PRIORITY_LISTS s"
    by (simp add: PRIORITY_LISTS_def)
  from m p l show ?thesis by blast
qed

lemma sleep_releasing_tcb:
  assumes "sleep_releasing cfg curtime curtime' st cause timeout s = Inr s'"
  shows "mutex_part (tcbs s' t) =
         (if CURTHREAD s = t then mutex_part (yield_priority (TOP_PRIORITY s) cause (tcbs s t))
          else mutex_part (tcbs s t))"
proof -
  define s2 where "s2 = (let s1 = tcb_upd (CURTHREAD s) (\<lambda>b. b\<lparr>state := st\<rparr>) s
     in if st \<noteq> EXITED then sched_register_timeout cfg curtime (CURTHREAD s) timeout s1 else s1)"
  from assms have y: "yield cfg curtime' cause s2 = Inr s'"
    by (simp add: sleep_releasing_def Let_def s2_def split: if_splits)
  have f: "CURTHREAD s2 = CURTHREAD s" "mutex_flag (tcbs s2 t) = mutex_flag (tcbs s t)"
    "prev_queue (tcbs s2 t) = prev_queue (tcbs s t)" "priority (tcbs s2 t) = priority (tcbs s t)"
    by (simp_all add: s2_def Let_def sched_register_timeout_def tcb_upd_def)
  from yield_tcb [OF y, of t] have "mutex_part (tcbs s' t) =
         (if CURTHREAD s2 = t
          then mutex_part (yield_priority (TOP_PRIORITY s2) cause (tcbs s2 t))
          else mutex_part (tcbs s2 t))"
    by blast
  then show ?thesis
    unfolding yield_priority_mutex_part by (simp add: f mutex_part_def)
qed

lemma perform_mutex_part:
  assumes "perform cfg e s = Inr s'" and "mutex_flag (tcbs s t) = 1"
    and "if CURTHREAD s = t then yield_cause e \<in> {None, Some SCHED_MUTEX} else True"
  shows "mutex_part (tcbs s' t) = mutex_part (tcbs s t)"
proof (cases e)
  case (Select curtime)
  with assms(1) obtain r where "sched_queue_select cfg curtime s = Inr (r, s')"
    by (auto split: sum.splits)
  from sched_queue_select_tcb [OF this, of t] show ?thesis by simp
next
  case (Yield curtime cause)
  with assms(1) have y: "yield cfg curtime cause s = Inr s'" by simp
  from assms(3) Yield have "CURTHREAD s = t \<longrightarrow> cause = SCHED_MUTEX"
    by (simp split: if_splits)
  moreover from yield_tcb [OF y, of t] have "mutex_part (tcbs s' t) =
         (if CURTHREAD s = t
          then mutex_part (yield_priority (TOP_PRIORITY s) cause (tcbs s t))
          else mutex_part (tcbs s t))"
    by blast
  ultimately show ?thesis
    unfolding yield_priority_mutex_part using assms(2) by (auto simp: mutex_part_def)
next
  case (Sleep curtime curtime' st cause timeout)
  with assms(1) have y: "sleep_releasing cfg curtime curtime' st cause timeout s = Inr s'"
    by simp
  from assms(3) Sleep have "CURTHREAD s = t \<longrightarrow> cause = SCHED_MUTEX"
    by (simp split: if_splits)
  with sleep_releasing_tcb [OF y, of t] show ?thesis
    unfolding yield_priority_mutex_part using assms(2) by (auto simp: mutex_part_def)
next
  case (Wakeup tcb)
  with assms(1) obtain r where w: "wakeup cfg tcb s = Inr (r, s')"
    by (auto split: sum.splits)
  show ?thesis
  proof (cases "state (tcbs s tcb) = STOPPED \<or> state (tcbs s tcb) = INIT")
    case True
    with w have "sched_make_ready cfg tcb s = Inr s'"
      by (auto simp: wakeup_def split: sum.splits)
    from sched_make_ready_tcb [OF this, of t] show ?thesis by simp
  next
    case False
    with w show ?thesis by (simp add: wakeup_def)
  qed
next
  case Gain
  with assms(1) gain_tcb [of cfg s s' t] show ?thesis by simp
next
  case Boost
  with assms(1) show ?thesis by (auto simp: boost_tcb)
qed

lemma run_mutex_part:
  "run cfg es s = Inr s' \<Longrightarrow> quiet cfg t es s \<Longrightarrow> mutex_flag (tcbs s t) = 1 \<Longrightarrow>
     mutex_part (tcbs s' t) = mutex_part (tcbs s t)"
proof (induction es arbitrary: s)
  case Nil
  then show ?case by simp
next
  case (Cons e es)
  from Cons.prems(1) obtain s1 where p: "perform cfg e s = Inr s1"
    and r: "run cfg es s1 = Inr s'"
    by (auto split: sum.splits)
  from Cons.prems(2) have b: "(if CURTHREAD s = t then yield_cause e \<in> {None, Some SCHED_MUTEX}
      else True) \<and> (case perform cfg e s of Inl x \<Rightarrow> True | Inr s' \<Rightarrow> quiet cfg t es s')"
    unfolding quiet.simps .
  then have c: "if CURTHREAD s = t then yield_cause e \<in> {None, Some SCHED_MUTEX} else True"
    by (rule conjunct1)
  from b p have q: "quiet cfg t es s1"
    by simp
  note m = perform_mutex_part [OF p Cons.prems(3) c]
  with Cons.prems(3) have "mutex_flag (tcbs s1 t) = 1"
    by (simp add: mutex_part_def)
  from Cons.IH [OF r q this] m show ?case by simp
qed

lemmas scheduler_defs = yield_def yield_outgoing_def yield_priority_def sched_queue_select_def
  select_thread_def drain_timeouts_unfold search_lists.simps rlist_pop_front_def
  update_congestion_def check_lower.simps congestion_grow_def congestion_drop_def
  is_rlist_empty_def boost_needed_def gain_def sched_queue_add_def rlist_push_back_def
  tcb_upd_def TOP_PRIORITY_def PRIORITY_LISTS_def LOWEST_PRIORITY_def INT_MAX_def INT_MIN_def
  idle_sched_def fresh_tcb_def sample_config_def Let_def

text \<open>
  C3. Thread \<open>t\<close> has the core and calls \<^verbatim>\<open>yield(SCHED_MUTEX)\<close>. When the call is over its
  \<^verbatim>\<open>mutex_flag\<close> is 1, its priority is \<^verbatim>\<open>LOWEST_PRIORITY\<close>, and \<^verbatim>\<open>prev_queue\<close> holds the
  priority it came with if the flag was 0 and is unchanged otherwise; the blocks of the
  other threads keep both fields. Then the system runs, in any way in which \<open>t\<close> makes no
  yield with another cause (other threads yield, sleep and are woken, the queues are
  boosted, \<open>t\<close> may yield with \<^verbatim>\<open>SCHED_MUTEX\<close> again): flag and \<^verbatim>\<open>prev_queue\<close> of \<open>t\<close> stay
  as they are. When \<open>t\<close> has the core again and yields with a cause other than
  \<^verbatim>\<open>SCHED_MUTEX\<close>, it leaves the call with the saved priority and with the flag 0. The
  selection, the boost and the \<^verbatim>\<open>gain\<close> inside each call are part of what is proved.
\<close>

theorem yield_mutex_demotion_is_undone:
  assumes "CURTHREAD s = t" and "off_queue t s"
    and "yield cfg c1 SCHED_MUTEX s = Inr s1"
    and "run cfg es s1 = Inr s2" and "quiet cfg t es s1"
    and "CURTHREAD s2 = t" and "off_queue t s2"
    and "cause \<noteq> SCHED_MUTEX" and "yield cfg c2 cause s2 = Inr s3"
  shows "mutex_flag (tcbs s1 t) = 1 \<and> priority (tcbs s1 t) = LOWEST_PRIORITY
     \<and> prev_queue (tcbs s1 t) =
         (if mutex_flag (tcbs s t) = 0 then priority (tcbs s t) else prev_queue (tcbs s t))
     \<and> (\<forall>u. u \<noteq> t \<longrightarrow> mutex_flag (tcbs s1 u) = mutex_flag (tcbs s u)
                      \<and> prev_queue (tcbs s1 u) = prev_queue (tcbs s u))
     \<and> mutex_flag (tcbs s2 t) = 1 \<and> prev_queue (tcbs s2 t) = prev_queue (tcbs s1 t)
     \<and> mutex_flag (tcbs s3 t) = 0 \<and> priority (tcbs s3 t) = prev_queue (tcbs s1 t)
     \<and> prev_queue (tcbs s3 t) = prev_queue (tcbs s1 t)"
proof -
  note y1 = yield_tcb [OF assms(3), of t]
  from y1 assms(1) have m1: "mutex_part (tcbs s1 t) =
      mutex_part (yield_priority (TOP_PRIORITY s) SCHED_MUTEX (tcbs s t))"
    by simp
  then have a: "mutex_flag (tcbs s1 t) = 1"
    and b: "prev_queue (tcbs s1 t) =
         (if mutex_flag (tcbs s t) = 0 then priority (tcbs s t) else prev_queue (tcbs s t))"
    unfolding yield_priority_mutex_part by (simp_all add: mutex_part_def)
  from y1 have "LOWEST_PRIORITY \<le> TOP_PRIORITY s"
    by (simp add: TOP_PRIORITY_def LOWEST_PRIORITY_def)
  from y1 assms(1,2) yield_priority_demotes [OF this]
  have c: "priority (tcbs s1 t) = LOWEST_PRIORITY"
    by simp
  have d: "\<forall>u. u \<noteq> t \<longrightarrow> mutex_flag (tcbs s1 u) = mutex_flag (tcbs s u)
                      \<and> prev_queue (tcbs s1 u) = prev_queue (tcbs s u)"
  proof (intro allI impI)
    fix u
    assume "u \<noteq> t"
    with yield_tcb [OF assms(3), of u] assms(1)
    have "mutex_part (tcbs s1 u) = mutex_part (tcbs s u)"
      by simp
    then show "mutex_flag (tcbs s1 u) = mutex_flag (tcbs s u)
                      \<and> prev_queue (tcbs s1 u) = prev_queue (tcbs s u)"
      by (simp add: mutex_part_def)
  qed
  from run_mutex_part [OF assms(4,5) a] have "mutex_part (tcbs s2 t) = mutex_part (tcbs s1 t)" .
  with a have e: "mutex_flag (tcbs s2 t) = 1"
    and f: "prev_queue (tcbs s2 t) = prev_queue (tcbs s1 t)"
    by (simp_all add: mutex_part_def)
  note y3 = yield_tcb [OF assms(9), of t]
  from y3 assms(6) have "mutex_part (tcbs s3 t) =
      mutex_part (yield_priority (TOP_PRIORITY s2) cause (tcbs s2 t))"
    by simp
  then have g: "mutex_flag (tcbs s3 t) = 0" and i: "prev_queue (tcbs s3 t) = prev_queue (tcbs s2 t)"
    unfolding yield_priority_mutex_part using e assms(8) by (simp_all add: mutex_part_def)
  from y3 assms(6,7) yield_priority_restores [OF assms(8) e]
  have h: "priority (tcbs s3 t) = prev_queue (tcbs s2 t)"
    by simp
  from a b c d e f g h i show ?thesis by simp
qed

theorem yield_mutex_demotion_is_undone_witness:
  "CURTHREAD mutex_sched = 1 \<and> off_queue 1 mutex_sched
   \<and> priority (tcbs mutex_sched 1) = 1 \<and> mutex_flag (tcbs mutex_sched 1) = 0
   \<and> (\<exists>s1 s2 s3. yield sample_config 10 SCHED_MUTEX mutex_sched = Inr s1
         \<and> run sample_config [Boost, Boost, Yield 20 SCHED_QUANTUM] s1 = Inr s2
         \<and> quiet sample_config 1 [Boost, Boost, Yield 20 SCHED_QUANTUM] s1
         \<and> CURTHREAD s2 = 1 \<and> off_queue 1 s2 \<and> priority (tcbs s2 1) = 2
         \<and> yield sample_config 30 SCHED_IO s2 = Inr s3
         \<and> mutex_flag (tcbs s1 1) = 1 \<and> priority (tcbs s1 1) = 0
         \<and> prev_queue (tcbs s1 1) = 1
         \<and> mutex_flag (tcbs s3 1) = 0 \<and> priority (tcbs s3 1) = 1)"
proof -
  define s1 where "s1 = mutex_sched\<lparr>
    tcbs := (\<lambda>u. if u = 1 then fresh_tcb\<lparr>state := READY, priority := 0, mutex_flag := 1,
                                          prev_queue := 1, next_tcb := 2\<rparr>
                else if u = 2 then fresh_tcb\<lparr>state := RUNNING, phase := CTX_DIRTY, prev := 1\<rparr>
                else fresh_tcb\<lparr>state := READY\<rparr>),
    SCHED := [[1], [], []], fail_safe := 1, CURTHREAD := 2\<rparr>"
  define s2 where "s2 = mutex_sched\<lparr>
    tcbs := (\<lambda>u. if u = 1 then fresh_tcb\<lparr>state := RUNNING, phase := CTX_DIRTY, priority := 2,
                                          mutex_flag := 1, prev_queue := 1, prev := 2,
                                          next_tcb := 2\<rparr>
                else if u = 2 then fresh_tcb\<lparr>state := READY, priority := 1, prev := 1,
                                               next_tcb := 1\<rparr>
                else fresh_tcb\<lparr>state := READY\<rparr>),
    SCHED := [[], [2], []], fail_safe := 2, CURTHREAD := 1\<rparr>"
  have h0: "CURTHREAD mutex_sched = 1" "off_queue 1 mutex_sched"
    "priority (tcbs mutex_sched 1) = 1" "mutex_flag (tcbs mutex_sched 1) = 0"
    by (simp_all add: mutex_sched_def idle_sched_def fresh_tcb_def off_queue_def)
  have y1: "yield sample_config 10 SCHED_MUTEX mutex_sched = Inr s1"
    by (simp add: scheduler_defs mutex_sched_def s1_def fun_eq_iff)
  have b1: "run sample_config [Boost, Boost] s1 = Inr (s1\<lparr>
    tcbs := (\<lambda>u. if u = 1 then fresh_tcb\<lparr>state := READY, priority := 2, mutex_flag := 1,
                                          prev_queue := 1, next_tcb := 2\<rparr>
                else if u = 2 then fresh_tcb\<lparr>state := RUNNING, phase := CTX_DIRTY, prev := 1\<rparr>
                else fresh_tcb\<lparr>state := READY\<rparr>),
    SCHED := [[], [], [1]]\<rparr>)"
    by (simp add: boost_eq lifted_def raise_priority_def s1_def mutex_sched_def idle_sched_def
          fresh_tcb_def fun_eq_iff)
  have r2: "run sample_config [Boost, Boost, Yield 20 SCHED_QUANTUM] s1 = Inr s2"
    using b1 by (simp add: scheduler_defs mutex_sched_def s1_def s2_def fun_eq_iff
                      split: sum.splits)
  have q: "quiet sample_config 1 [Boost, Boost, Yield 20 SCHED_QUANTUM] s1"
    using b1 r2
    by (simp add: boost_other_fields s1_def mutex_sched_def idle_sched_def split: sum.splits)
  have h2: "CURTHREAD s2 = 1" "off_queue 1 s2" "priority (tcbs s2 1) = 2"
    by (simp_all add: s2_def mutex_sched_def idle_sched_def fresh_tcb_def off_queue_def)
  obtain s3 where y3: "yield sample_config 30 SCHED_IO s2 = Inr s3"
    by (simp add: scheduler_defs mutex_sched_def s2_def fun_eq_iff)
  have ne: "SCHED_IO \<noteq> SCHED_MUTEX" by simp
  note th = yield_mutex_demotion_is_undone [OF h0(1,2) y1 r2 q h2(1,2) ne y3]
  from th h0(3,4) have r: "mutex_flag (tcbs s1 1) = 1" "priority (tcbs s1 1) = 0"
    "prev_queue (tcbs s1 1) = 1" "mutex_flag (tcbs s3 1) = 0" "priority (tcbs s3 1) = 1"
    by (simp_all add: LOWEST_PRIORITY_def)
  from y1 r2 q h2 y3 r have "\<exists>s1 s2 s3. yield sample_config 10 SCHED_MUTEX mutex_sched = Inr s1
         \<and> run sample_config [Boost, Boost, Yield 20 SCHED_QUANTUM] s1 = Inr s2
         \<and> quiet sample_config 1 [Boost, Boost, Yield 20 SCHED_QUANTUM] s1
         \<and> CURTHREAD s2 = 1 \<and> off_queue 1 s2 \<and> priority (tcbs s2 1) = 2
         \<and> yield sample_config 30 SCHED_IO s2 = Inr s3
         \<and> mutex_flag (tcbs s1 1) = 1 \<and> priority (tcbs s1 1) = 0
         \<and> prev_queue (tcbs s1 1) = 1
         \<and> mutex_flag (tcbs s3 1) = 0 \<and> priority (tcbs s3 1) = 1"
    by blast
  with h0 show ?thesis by (intro conjI)
qed

subsection \<open>Waking a thread\<close>

lemma map_removeAll_absent:
  "tcb \<notin> set (concat q) \<Longrightarrow> map (removeAll tcb) q = q"
  by (induction q) simp_all

lemma sched_make_ready_effect:
  assumes "sched_make_ready cfg tcb s = Inr s'"
  shows "state (tcbs s' tcb) = READY \<and> wakeup_time (tcbs s' tcb) = NO_TIMEOUT cfg
     \<and> (\<forall>n. n \<noteq> tcb \<longrightarrow> tcbs s' n = tcbs s n)
     \<and> TIMEOUT_LIST s' =
         (if wakeup_time (tcbs s tcb) \<noteq> NO_TIMEOUT cfg then removeAll tcb (TIMEOUT_LIST s)
          else TIMEOUT_LIST s)
     \<and> (tcb \<notin> set (concat (SCHED s)) \<longrightarrow>
          SCHED s' =
            (if phase (tcbs s tcb) = CTX_CLEAN
             then (SCHED s)[nat (priority (tcbs s tcb)) :=
                              SCHED s ! nat (priority (tcbs s tcb)) @ [tcb]]
             else SCHED s))
     \<and> (phase (tcbs s tcb) = CTX_CLEAN \<longrightarrow>
          0 \<le> priority (tcbs s tcb) \<and> priority (tcbs s tcb) < PRIORITY_LISTS s)"
proof -
  let ?s1 = "if wakeup_time (tcbs s tcb) \<noteq> NO_TIMEOUT cfg
             then tcb_upd tcb (\<lambda>b. b\<lparr>wakeup_time := NO_TIMEOUT cfg\<rparr>) (rlist_remove tcb s)
             else s"
  let ?s2 = "tcb_upd tcb (\<lambda>b. b\<lparr>state := READY\<rparr>) ?s1"
  have t2: "state (tcbs ?s2 tcb) = READY" "wakeup_time (tcbs ?s2 tcb) = NO_TIMEOUT cfg"
    "\<forall>n. n \<noteq> tcb \<longrightarrow> tcbs ?s2 n = tcbs s n"
    "priority (tcbs ?s2 tcb) = priority (tcbs s tcb)"
    "TIMEOUT_LIST ?s2 =
         (if wakeup_time (tcbs s tcb) \<noteq> NO_TIMEOUT cfg then removeAll tcb (TIMEOUT_LIST s)
          else TIMEOUT_LIST s)"
    "tcb \<notin> set (concat (SCHED s)) \<longrightarrow> SCHED ?s2 = SCHED s"
    "length (SCHED ?s2) = length (SCHED s)"
    by (simp_all add: tcb_upd_def rlist_remove_def map_removeAll_absent)
  show ?thesis
  proof (cases "phase (tcbs s tcb) = CTX_CLEAN")
    case False
    with sched_make_ready_cases [OF assms] have "s' = ?s2"
      by (simp add: Let_def)
    with t2 False show ?thesis by simp
  next
    case True
    with sched_make_ready_cases [OF assms] have a: "sched_queue_add tcb ?s2 = Inr s'"
      by (simp add: Let_def)
    then have p: "0 \<le> priority (tcbs ?s2 tcb) \<and> priority (tcbs ?s2 tcb) < PRIORITY_LISTS ?s2"
      by (auto simp: sched_queue_add_def Let_def split: if_splits)
    with a have q: "SCHED s' = (SCHED ?s2)[nat (priority (tcbs ?s2 tcb)) :=
                                SCHED ?s2 ! nat (priority (tcbs ?s2 tcb)) @ [tcb]]"
      by (auto simp: sched_queue_add_def Let_def rlist_push_back_def split: if_splits)
    from sched_queue_add_fields [OF a] have k: "tcbs s' = tcbs ?s2" "TIMEOUT_LIST s' = TIMEOUT_LIST ?s2"
      by simp_all
    have pl: "PRIORITY_LISTS ?s2 = PRIORITY_LISTS s"
      using t2(7) by (simp only: PRIORITY_LISTS_def)
    from t2 True p q show ?thesis
      unfolding k pl by auto
  qed
qed

lemma sched_make_ready_returns:
  assumes "state (tcbs s tcb) = STOPPED \<or> state (tcbs s tcb) = INIT"
    and "wakeup_time (tcbs s tcb) \<noteq> NO_TIMEOUT cfg \<longrightarrow>
           linked tcb s \<and> state (tcbs s tcb) = STOPPED"
    and "phase (tcbs s tcb) = CTX_CLEAN \<longrightarrow>
           0 \<le> priority (tcbs s tcb) \<and> priority (tcbs s tcb) < PRIORITY_LISTS s"
  shows "\<exists>s'. sched_make_ready cfg tcb s = Inr s'"
proof -
  let ?s1 = "if wakeup_time (tcbs s tcb) \<noteq> NO_TIMEOUT cfg
             then tcb_upd tcb (\<lambda>b. b\<lparr>wakeup_time := NO_TIMEOUT cfg\<rparr>) (rlist_remove tcb s)
             else s"
  let ?s2 = "tcb_upd tcb (\<lambda>b. b\<lparr>state := READY\<rparr>) ?s1"
  have t2: "phase (tcbs ?s2 tcb) = phase (tcbs s tcb)"
    "priority (tcbs ?s2 tcb) = priority (tcbs s tcb)"
    "PRIORITY_LISTS ?s2 = PRIORITY_LISTS s"
    by (simp_all add: tcb_upd_def rlist_remove_def PRIORITY_LISTS_def)
  have c: "\<not> (wakeup_time (tcbs s tcb) \<noteq> NO_TIMEOUT cfg
            \<and> \<not> (linked tcb s \<and> state (tcbs s tcb) = STOPPED))"
    using assms(2) by blast
  show ?thesis
  proof (cases "phase (tcbs s tcb) = CTX_CLEAN")
    case True
    with assms(3) obtain s' where a: "sched_queue_add tcb ?s2 = Inr s'"
      unfolding sched_queue_add_def Let_def t2 by simp
    from True t2(1) have ph: "phase (tcbs ?s2 tcb) = CTX_CLEAN" by simp
    have "sched_make_ready cfg tcb s = sched_queue_add tcb ?s2"
      unfolding sched_make_ready_def Let_def using assms(1) c ph
      by (simp only: if_False if_True not_not simp_thms)
    with a show ?thesis by simp
  next
    case False
    with t2(1) have ph: "phase (tcbs ?s2 tcb) \<noteq> CTX_CLEAN" by simp
    have "sched_make_ready cfg tcb s = Inr ?s2"
      unfolding sched_make_ready_def Let_def using assms(1) c ph
      by (simp only: if_False if_True not_not simp_thms)
    then show ?thesis by simp
  qed
qed

text \<open>
  C8. A call of \<^verbatim>\<open>wakeup\<close> that returns gives 1 or 0, and 1 exactly when the state of the
  thread is \<^verbatim>\<open>STOPPED\<close> or \<^verbatim>\<open>INIT\<close>. With 0 the scheduler data is what it was. With 1
  the thread went through \<^verbatim>\<open>sched_make_ready\<close>: it is \<^verbatim>\<open>READY\<close>, its wakeup time is
  \<^verbatim>\<open>NO_TIMEOUT\<close>, it has left the timeout list when a timeout was set, the other blocks are
  untouched, and (its node not being in a ready queue before) it is at the tail of the
  queue of its priority when its phase is \<^verbatim>\<open>CTX_CLEAN\<close>, and in no queue otherwise. A
  thread in another state makes the call return 0; a thread in one of the two states, with
  the assertions of \<^verbatim>\<open>sched_make_ready\<close> true and its priority inside the array, makes
  it return 1.
\<close>

theorem wakeup_readies_stopped_threads:
  "(\<forall>r s'. wakeup cfg tcb s = Inr (r, s') \<longrightarrow>
       (r = 1 \<or> r = 0)
       \<and> (r = 1 \<longleftrightarrow> state (tcbs s tcb) = STOPPED \<or> state (tcbs s tcb) = INIT)
       \<and> (r = 0 \<longrightarrow> s' = s)
       \<and> (r = 1 \<longrightarrow>
            sched_make_ready cfg tcb s = Inr s'
            \<and> state (tcbs s' tcb) = READY \<and> wakeup_time (tcbs s' tcb) = NO_TIMEOUT cfg
            \<and> (\<forall>n. n \<noteq> tcb \<longrightarrow> tcbs s' n = tcbs s n)
            \<and> TIMEOUT_LIST s' =
                (if wakeup_time (tcbs s tcb) \<noteq> NO_TIMEOUT cfg
                 then removeAll tcb (TIMEOUT_LIST s) else TIMEOUT_LIST s)
            \<and> (tcb \<notin> set (concat (SCHED s)) \<longrightarrow>
                 SCHED s' =
                   (if phase (tcbs s tcb) = CTX_CLEAN
                    then (SCHED s)[nat (priority (tcbs s tcb)) :=
                                     SCHED s ! nat (priority (tcbs s tcb)) @ [tcb]]
                    else SCHED s))))
   \<and> (\<not> (state (tcbs s tcb) = STOPPED \<or> state (tcbs s tcb) = INIT) \<longrightarrow>
         wakeup cfg tcb s = Inr (0, s))
   \<and> ((state (tcbs s tcb) = STOPPED \<or> state (tcbs s tcb) = INIT)
       \<and> (wakeup_time (tcbs s tcb) \<noteq> NO_TIMEOUT cfg \<longrightarrow>
             linked tcb s \<and> state (tcbs s tcb) = STOPPED)
       \<and> (phase (tcbs s tcb) = CTX_CLEAN \<longrightarrow>
             0 \<le> priority (tcbs s tcb) \<and> priority (tcbs s tcb) < PRIORITY_LISTS s)
       \<longrightarrow> (\<exists>s'. wakeup cfg tcb s = Inr (1, s')))"
proof (intro conjI allI impI)
  fix r s'
  assume a: "wakeup cfg tcb s = Inr (r, s')"
  show "r = 1 \<or> r = 0"
    using a by (auto simp: wakeup_def split: if_splits sum.splits)
  show "r = 1 \<longleftrightarrow> state (tcbs s tcb) = STOPPED \<or> state (tcbs s tcb) = INIT"
    using a by (auto simp: wakeup_def split: if_splits sum.splits)
  {
    assume "r = 0"
    with a show "s' = s"
      by (auto simp: wakeup_def split: if_splits sum.splits)
  }
  {
    assume "r = 1"
    with a show m: "sched_make_ready cfg tcb s = Inr s'"
      by (auto simp: wakeup_def split: if_splits sum.splits)
    note e = sched_make_ready_effect [OF m]
    from e show "state (tcbs s' tcb) = READY" by blast
    from e show "wakeup_time (tcbs s' tcb) = NO_TIMEOUT cfg" by blast
    from e show "TIMEOUT_LIST s' =
                (if wakeup_time (tcbs s tcb) \<noteq> NO_TIMEOUT cfg
                 then removeAll tcb (TIMEOUT_LIST s) else TIMEOUT_LIST s)" by blast
    {
      fix n assume "n \<noteq> tcb"
      with e show "tcbs s' n = tcbs s n" by blast
    }
    {
      assume "tcb \<notin> set (concat (SCHED s))"
      with e show "SCHED s' =
                   (if phase (tcbs s tcb) = CTX_CLEAN
                    then (SCHED s)[nat (priority (tcbs s tcb)) :=
                                     SCHED s ! nat (priority (tcbs s tcb)) @ [tcb]]
                    else SCHED s)" by blast
    }
  }
next
  assume "\<not> (state (tcbs s tcb) = STOPPED \<or> state (tcbs s tcb) = INIT)"
  then show "wakeup cfg tcb s = Inr (0, s)"
    by (simp add: wakeup_def)
next
  assume a: "(state (tcbs s tcb) = STOPPED \<or> state (tcbs s tcb) = INIT)
       \<and> (wakeup_time (tcbs s tcb) \<noteq> NO_TIMEOUT cfg \<longrightarrow>
             linked tcb s \<and> state (tcbs s tcb) = STOPPED)
       \<and> (phase (tcbs s tcb) = CTX_CLEAN \<longrightarrow>
             0 \<le> priority (tcbs s tcb) \<and> priority (tcbs s tcb) < PRIORITY_LISTS s)"
  then obtain s' where "sched_make_ready cfg tcb s = Inr s'"
    using sched_make_ready_returns [of s tcb cfg] by blast
  with a have "wakeup cfg tcb s = Inr (1, s')"
    by (simp add: wakeup_def)
  then show "\<exists>s'. wakeup cfg tcb s = Inr (1, s')" ..
qed

theorem wakeup_readies_stopped_threads_witness:
  "(\<exists>s'. wakeup sample_config 5 sleepy_sched = Inr (1, s')
         \<and> state (tcbs sleepy_sched 5) = STOPPED
         \<and> 5 \<notin> set (concat (SCHED sleepy_sched))
         \<and> state (tcbs s' 5) = READY \<and> TIMEOUT_LIST s' = [6] \<and> SCHED s' = [[1], [5], []])
   \<and> state (tcbs sleepy_sched 1) = READY
   \<and> wakeup sample_config 1 sleepy_sched = Inr (0, sleepy_sched)"
proof -
  have st: "state (tcbs sleepy_sched 5) = STOPPED"
    "wakeup_time (tcbs sleepy_sched 5) \<noteq> NO_TIMEOUT sample_config"
    "phase (tcbs sleepy_sched 5) = CTX_CLEAN" "priority (tcbs sleepy_sched 5) = 1"
    "linked 5 sleepy_sched" "PRIORITY_LISTS sleepy_sched = 3"
    "5 \<notin> set (concat (SCHED sleepy_sched))"
    "TIMEOUT_LIST sleepy_sched = [5, 6]" "SCHED sleepy_sched = [[1], [], []]"
    by (simp_all add: sleepy_sched_def idle_sched_def fresh_tcb_def sample_config_def
          linked_def PRIORITY_LISTS_def)
  note th = wakeup_readies_stopped_threads [of sample_config 5 sleepy_sched]
  have pre: "(state (tcbs sleepy_sched 5) = STOPPED \<or> state (tcbs sleepy_sched 5) = INIT)
       \<and> (wakeup_time (tcbs sleepy_sched 5) \<noteq> NO_TIMEOUT sample_config \<longrightarrow>
             linked 5 sleepy_sched \<and> state (tcbs sleepy_sched 5) = STOPPED)
       \<and> (phase (tcbs sleepy_sched 5) = CTX_CLEAN \<longrightarrow>
             0 \<le> priority (tcbs sleepy_sched 5)
             \<and> priority (tcbs sleepy_sched 5) < PRIORITY_LISTS sleepy_sched)"
    using st by simp
  from th [THEN conjunct2, THEN conjunct2, THEN mp, OF pre]
  obtain s' where w: "wakeup sample_config 5 sleepy_sched = Inr (1, s')" ..
  note c = th [THEN conjunct1, THEN spec, THEN spec, THEN mp, OF w]
  note d = c [THEN conjunct2, THEN conjunct2, THEN conjunct2, THEN mp, OF refl]
  from d have r: "state (tcbs s' 5) = READY"
    by (rule conjunct2 [THEN conjunct1])
  from d have tl: "TIMEOUT_LIST s' =
                (if wakeup_time (tcbs sleepy_sched 5) \<noteq> NO_TIMEOUT sample_config
                 then removeAll 5 (TIMEOUT_LIST sleepy_sched) else TIMEOUT_LIST sleepy_sched)"
    by (rule conjunct2 [THEN conjunct2, THEN conjunct2, THEN conjunct2, THEN conjunct1])
  from d have q: "5 \<notin> set (concat (SCHED sleepy_sched)) \<longrightarrow>
                 SCHED s' =
                   (if phase (tcbs sleepy_sched 5) = CTX_CLEAN
                    then (SCHED sleepy_sched)[nat (priority (tcbs sleepy_sched 5)) :=
                           SCHED sleepy_sched ! nat (priority (tcbs sleepy_sched 5)) @ [5]]
                    else SCHED sleepy_sched)"
    by (rule conjunct2 [THEN conjunct2, THEN conjunct2, THEN conjunct2, THEN conjunct2])
  from tl st have tl': "TIMEOUT_LIST s' = [6]" by simp
  from q st have q': "SCHED s' = [[1], [5], []]" by simp
  from w st(1,7) r tl' q' have first: "\<exists>s'. wakeup sample_config 5 sleepy_sched = Inr (1, s')
         \<and> state (tcbs sleepy_sched 5) = STOPPED
         \<and> 5 \<notin> set (concat (SCHED sleepy_sched))
         \<and> state (tcbs s' 5) = READY \<and> TIMEOUT_LIST s' = [6] \<and> SCHED s' = [[1], [5], []]"
    by (intro exI conjI)
  have s1: "state (tcbs sleepy_sched 1) = READY"
    by (simp add: sleepy_sched_def fresh_tcb_def)
  note th1 = wakeup_readies_stopped_threads [of sample_config 1 sleepy_sched]
  have "\<not> (state (tcbs sleepy_sched 1) = STOPPED \<or> state (tcbs sleepy_sched 1) = INIT)"
    using s1 by simp
  with th1 [THEN conjunct2, THEN conjunct1]
  have "wakeup sample_config 1 sleepy_sched = Inr (0, sleepy_sched)"
    by (rule mp)
  with first s1 show ?thesis by (intro conjI)
qed

subsection \<open>The gain phase after an exit\<close>

lemma gain_exited_prev:
  assumes "CURTHREAD s \<noteq> prev (tcbs s (CURTHREAD s))"
    and "state (tcbs s (prev (tcbs s (CURTHREAD s)))) = EXITED"
  shows "\<exists>s'. gain cfg s = Inr s'
     \<and> live s' = live s - {prev (tcbs s (CURTHREAD s))}
     \<and> active_threads s' = active_threads s - 1
     \<and> (\<forall>p. owner_ptcb (tcbs s (prev (tcbs s (CURTHREAD s)))) = Some p \<longrightarrow>
            thread_exited (ptcbs s' p) = 1)
     \<and> (owner_ptcb (tcbs s (prev (tcbs s (CURTHREAD s)))) = None \<longrightarrow> ptcbs s' = ptcbs s)
     \<and> (\<exists>cp. thread_count (pcbs s' cp) = thread_count (pcbs s cp) - 1
            \<and> (\<forall>p. p \<noteq> cp \<longrightarrow> pcbs s' p = pcbs s p))"
proof -
  let ?cur = "CURTHREAD s"
  let ?prv = "prev (tcbs s ?cur)"
  let ?s1 = "tcb_upd ?cur (\<lambda>b. b\<lparr>state := RUNNING, phase := CTX_DIRTY\<rparr>) s"
  let ?s2 = "tcb_upd ?prv (\<lambda>b. b\<lparr>phase := CTX_CLEAN\<rparr>) ?s1"
  have t2: "state (tcbs ?s2 ?prv) = EXITED"
    "owner_ptcb (tcbs ?s2 ?prv) = owner_ptcb (tcbs s ?prv)"
    "live ?s2 = live s" "active_threads ?s2 = active_threads s" "pcbs ?s2 = pcbs s"
    "ptcbs ?s2 = ptcbs s"
    using assms by (simp_all add: tcb_upd_def)
  show ?thesis
  proof (cases "owner_ptcb (tcbs s ?prv)")
    case None
    let ?cp = "CURPROC cfg ?s2"
    have "gain cfg s = Inr (release_TCB ?prv (?s2\<lparr>pcbs := (pcbs ?s2)(?cp :=
              (pcbs ?s2 ?cp)\<lparr>thread_count := thread_count (pcbs ?s2 ?cp) - 1\<rparr>)\<rparr>))"
      using assms(1) t2(1,2) None by (simp add: gain_def Let_def)
    then show ?thesis
      using None t2(3-6) by (auto simp: release_TCB_def intro!: exI [of _ ?cp])
  next
    case (Some p)
    let ?s3 = "?s2\<lparr>ptcbs := (ptcbs ?s2)(p := (ptcbs ?s2 p)\<lparr>thread_exited := 1\<rparr>)\<rparr>"
    let ?cp = "CURPROC cfg ?s3"
    have "gain cfg s = Inr (release_TCB ?prv (?s3\<lparr>pcbs := (pcbs ?s3)(?cp :=
              (pcbs ?s3 ?cp)\<lparr>thread_count := thread_count (pcbs ?s3 ?cp) - 1\<rparr>)\<rparr>))"
      using assms(1) t2(1,2) Some by (simp add: gain_def Let_def)
    then show ?thesis
      using Some t2(3-6) by (auto simp: release_TCB_def intro!: exI [of _ ?cp])
  qed
qed

text \<open>
  C2. The gain phase after an exited predecessor is meant to take one from the thread
  count of the process that owns the predecessor. The code takes it from \<^verbatim>\<open>CURPROC\<close>.
  Where \<^verbatim>\<open>CURPROC\<close> is the process of the current thread, and thread 1 of process 1
  gains the core after the exited thread 2 of process 2: the flag of the thread handle is
  set, the block is freed and \<^verbatim>\<open>active_threads\<close> goes down by one, but the thread count of
  process 2 stays and the one of process 1 goes down.
\<close>

theorem gain_charges_the_gaining_process:
  "\<exists>s'. gain sample_config exit_sched = Inr s'
     \<and> owner_pcb (tcbs exit_sched (prev (tcbs exit_sched (CURTHREAD exit_sched)))) = 2
     \<and> thread_count (pcbs s' 2) = thread_count (pcbs exit_sched 2)
     \<and> thread_count (pcbs s' 1) = thread_count (pcbs exit_sched 1) - 1
     \<and> thread_exited (ptcbs s' 7) = 1
     \<and> live s' = {1} \<and> active_threads s' = 1"
  by (simp add: gain_def tcb_upd_def release_TCB_def exit_sched_def idle_sched_def
        fresh_tcb_def sample_config_def Let_def insert_Diff_if)

end
